theory Spec2Isabelle
  imports Complex_Main "HOL-Library.Word" "HOL-Library.Monad_Syntax"
begin

unbundle bit_operations_syntax

section \<open>The oscilloscope driver (scopehal/SiglentMinOscilloscope.cpp)\<close>

subsection \<open>Transport and driver state\<close>

text \<open>
  The SCPI commands the modelled member functions format with \<open>sendOnly\<close> and
  \<open>converse\<close>. The channel number is the formatted argument \<open>i + 1\<close>; a
  \<open>float\<close> is an exact real here (rounding is not modelled).
\<close>

datatype scpi_command =
    CHANNEL_SWITCH_Q nat        \<comment> \<open>\<open>:CHANNEL%d:SWITCH?\<close>\<close>
  | CHANNEL_SWITCH_ON nat       \<comment> \<open>\<open>:CHANNEL%d:SWITCH ON\<close>\<close>
  | CHANNEL_SWITCH_OFF nat      \<comment> \<open>\<open>:CHANNEL%d:SWITCH OFF\<close>\<close>
  | CHANNEL_OFFSET_Q nat        \<comment> \<open>\<open>:CHANNEL%ld:OFFSET?\<close>\<close>
  | CHANNEL_OFFSET nat real     \<comment> \<open>\<open>:CHANNEL%ld:OFFSET %1.2E\<close>\<close>
  | TRIGGER_STATUS_Q            \<comment> \<open>\<open>:TRIGGER:STATUS?\<close>\<close>
  | TRIGGER_MODE_FTRIG          \<comment> \<open>\<open>:TRIGGER:MODE FTRIG\<close>\<close>

datatype TriggerMode = TRIGGER_MODE_RUN | TRIGGER_MODE_STOP | TRIGGER_MODE_TRIGGERED

text \<open>
  The transport is an external collaborator. Its model: the commands handed to it, in
  order (\<open>tx\<close>), the number of \<open>FlushCommandQueue\<close> calls, and the raw bytes
  the instrument has put on the wire (\<open>rx\<close>).
\<close>

record driver =
  m_analogChannelCount :: nat
  m_triggerArmed :: bool
  m_triggerOneShot :: bool
  m_triggerForced :: bool
  m_channelOffsets :: "nat \<rightharpoonup> real"     \<comment> \<open>\<open>std::map<size_t, float>\<close>\<close>
  m_channelsEnabled :: "int \<rightharpoonup> bool"    \<comment> \<open>\<open>std::map<int, bool>\<close>\<close>
  m_sampleRateValid :: bool
  m_memoryDepthValid :: bool
  tx :: "scpi_command list"
  flushes :: nat
  rx :: string
  errors :: "string list"                  \<comment> \<open>\<open>LogError\<close> messages, in order\<close>

definition sendOnly :: "scpi_command \<Rightarrow> driver \<Rightarrow> driver" where
  "sendOnly c s = s\<lparr>tx := tx s @ [c]\<rparr>"

text \<open>
  \<open>converse\<close> sends the query and returns the reply; the reply the instrument gives is
  an argument of each function that converses.
\<close>

definition converse :: "scpi_command \<Rightarrow> driver \<Rightarrow> driver" where
  "converse c s = s\<lparr>tx := tx s @ [c]\<rparr>"

definition FlushCommandQueue :: "driver \<Rightarrow> driver" where
  "FlushCommandQueue s = s\<lparr>flushes := Suc (flushes s)\<rparr>"

definition LogError :: "string \<Rightarrow> driver \<Rightarrow> driver" where
  "LogError msg s = s\<lparr>errors := errors s @ [msg]\<rparr>"

text \<open>
  A \<open>size_t\<close> channel index used as a key of \<open>std::map<int, bool>\<close> is converted
  to \<open>int\<close>: reduced modulo \<open>2^32\<close> and read as two's complement.
\<close>

definition int_of_size_t :: "nat \<Rightarrow> int" where
  "int_of_size_t i = sint (word_of_nat i :: 32 word)"

text \<open>
  \<open>std::map::operator[]\<close> on the enable cache: a key that has no entry gets a
  value-initialised (\<open>false\<close>) one, and the map is returned updated.
\<close>

definition map_index :: "('k \<rightharpoonup> bool) \<Rightarrow> 'k \<Rightarrow> bool \<times> ('k \<rightharpoonup> bool)" where
  "map_index m k = (case m k of Some v \<Rightarrow> (v, m) | None \<Rightarrow> (False, m(k \<mapsto> False)))"

subsection \<open>Interleaving and channel enable state\<close>

text \<open>
  \<open>(m_channelsEnabled[a] == true) && (m_channelsEnabled[b] == true)\<close>: the right operand
  is evaluated, and its key looked up, only when the left one holds.
\<close>

definition both_enabled :: "int \<Rightarrow> int \<Rightarrow> (int \<rightharpoonup> bool) \<Rightarrow> bool \<times> (int \<rightharpoonup> bool)" where
  "both_enabled a b m =
     (let (ea, ma) = map_index m a in
      if ea then map_index ma b else (False, ma))"

definition IsInterleaving :: "driver \<Rightarrow> bool \<times> driver" where
  "IsInterleaving s =
     (let (c12, m1) = both_enabled 0 1 (m_channelsEnabled s) in
      if c12 then (False, s\<lparr>m_channelsEnabled := m1\<rparr>)
      else
        let (c34, m2) = both_enabled 3 4 m1 in
        if c34 then (False, s\<lparr>m_channelsEnabled := m2\<rparr>)
        else (True, s\<lparr>m_channelsEnabled := m2\<rparr>))"

text \<open>
  \<open>IsChannelEnabled(i)\<close>; \<open>reply\<close> is what the instrument answers to
  \<open>:CHANNEL<i+1>:SWITCH?\<close> when it is asked. \<open>reply.find("OFF") != 0\<close> holds unless
  the reply starts with \<open>OFF\<close>.
\<close>

definition IsChannelEnabled :: "string \<Rightarrow> nat \<Rightarrow> driver \<Rightarrow> bool \<times> driver" where
  "IsChannelEnabled reply i s =
     (case m_channelsEnabled s (int_of_size_t i) of
        Some v \<Rightarrow> (v, s)
      | None \<Rightarrow>
          let s1 = (if i < m_analogChannelCount s
                    then (converse (CHANNEL_SWITCH_Q (i + 1)) s)
                           \<lparr>m_channelsEnabled :=
                              (m_channelsEnabled s)(int_of_size_t i \<mapsto> take 3 reply \<noteq> ''OFF'')\<rparr>
                    else s);
              (v, m) = map_index (m_channelsEnabled s1) (int_of_size_t i)
          in (v, s1\<lparr>m_channelsEnabled := m\<rparr>))"

definition EnableChannel :: "nat \<Rightarrow> driver \<Rightarrow> driver" where
  "EnableChannel i s =
     (let (wasInterleaving, s1) = IsInterleaving s;
          s2 = (if i < m_analogChannelCount s1
                then sendOnly (CHANNEL_SWITCH_ON (i + 1)) s1
                else LogError (''Unsupported channel type'' @ [CHR 0x0A]) s1);
          s3 = s2\<lparr>m_channelsEnabled := (m_channelsEnabled s2)(int_of_size_t i \<mapsto> True)\<rparr>;
          (nowInterleaving, s4) = IsInterleaving s3
      in if nowInterleaving \<noteq> wasInterleaving
         then s4\<lparr>m_memoryDepthValid := False, m_sampleRateValid := False\<rparr>
         else s4)"

definition DisableChannel :: "nat \<Rightarrow> driver \<Rightarrow> driver" where
  "DisableChannel i s =
     (let (wasInterleaving, s1) = IsInterleaving s;
          s2 = s1\<lparr>m_channelsEnabled := (m_channelsEnabled s1)(int_of_size_t i \<mapsto> False)\<rparr>;
          s3 = (if i < m_analogChannelCount s2
                then sendOnly (CHANNEL_SWITCH_OFF (i + 1)) s2
                else s2);
          (nowInterleaving, s4) = IsInterleaving s3
      in if nowInterleaving \<noteq> wasInterleaving
         then s4\<lparr>m_memoryDepthValid := False, m_sampleRateValid := False\<rparr>
         else s4)"

subsection \<open>Triggering\<close>

text \<open>
  \<open>PollTrigger\<close>; \<open>sinr\<close> is the instrument's answer to \<open>:TRIGGER:STATUS?\<close>, used
  only on the path that asks.
\<close>

definition PollTrigger :: "string \<Rightarrow> driver \<Rightarrow> TriggerMode \<times> driver" where
  "PollTrigger sinr s =
     (if m_triggerForced s
      then (TRIGGER_MODE_TRIGGERED, s\<lparr>m_triggerForced := False, m_triggerArmed := False\<rparr>)
      else
        let s1 = converse TRIGGER_STATUS_Q s in
        if sinr = ''Arm'' \<or> sinr = ''Ready''
        then (TRIGGER_MODE_RUN, s1\<lparr>m_triggerArmed := True\<rparr>)
        else if sinr = ''Stop''
        then (if m_triggerArmed s1
              then (TRIGGER_MODE_TRIGGERED,
                    if m_triggerOneShot s1 then s1\<lparr>m_triggerArmed := False\<rparr> else s1)
              else (TRIGGER_MODE_STOP, s1))
        else (TRIGGER_MODE_RUN, s1))"

definition ForceTrigger :: "driver \<Rightarrow> driver" where
  "ForceTrigger s =
     (if m_triggerForced s then s
      else
        let s1 = s\<lparr>m_triggerForced := True\<rparr>;
            s2 = FlushCommandQueue (sendOnly TRIGGER_MODE_FTRIG s1)
        in s2\<lparr>m_triggerArmed := True, m_triggerOneShot := True\<rparr>)"

subsection \<open>Channel offset\<close>

text \<open>
  \<open>GetChannelOffset(i, stream)\<close>; \<open>offset\<close> is the number \<open>sscanf\<close> reads from the
  instrument's answer to \<open>:CHANNEL<i+1>:OFFSET?\<close>, used only on the path that asks.
\<close>

definition GetChannelOffset :: "real \<Rightarrow> nat \<Rightarrow> driver \<Rightarrow> real \<times> driver" where
  "GetChannelOffset offset i s =
     (if i > m_analogChannelCount s then (0, s)
      else
        case m_channelOffsets s i of
          Some v \<Rightarrow> (v, s)
        | None \<Rightarrow>
            (offset, (converse (CHANNEL_OFFSET_Q (i + 1)) s)
                       \<lparr>m_channelOffsets := (m_channelOffsets s)(i \<mapsto> offset)\<rparr>))"

definition SetChannelOffset :: "nat \<Rightarrow> real \<Rightarrow> driver \<Rightarrow> driver" where
  "SetChannelOffset i offset s =
     (if i > m_analogChannelCount s then s
      else (sendOnly (CHANNEL_OFFSET (i + 1) offset) s)
             \<lparr>m_channelOffsets := (m_channelOffsets s)(i \<mapsto> offset)\<rparr>)"


subsection \<open>Waveform block transfer\<close>

text \<open>
  \<open>m_transport->ReadRawData(len, buf)\<close>: the transport is a reliable byte stream, and a
  read delivers the next \<open>len\<close> bytes of the wire. The driver does not check the call's
  result; a read the wire cannot satisfy has no result in the model (\<open>None\<close>).
\<close>

definition ReadRawData :: "nat \<Rightarrow> driver \<Rightarrow> (string \<times> driver) option" where
  "ReadRawData len s =
     (if len \<le> length (rx s) then Some (take len (rx s), s\<lparr>rx := drop len (rx s)\<rparr>)
      else None)"

text \<open>Writing \<open>bytes\<close> into a buffer from offset \<open>off\<close> on.\<close>

definition store_bytes :: "nat \<Rightarrow> string \<Rightarrow> string \<Rightarrow> string" where
  "store_bytes off bytes buf = take off buf @ bytes @ drop (off + length bytes) buf"

definition NUL :: char where
  "NUL = CHR 0x00"

text \<open>
  \<open>strncmp(s, t, n) == 0\<close>: at most \<open>n\<close> characters are compared, and the comparison
  stops behind a common NUL. The end of a modelled array counts as its terminating NUL.
\<close>

fun strncmp_eq :: "string \<Rightarrow> string \<Rightarrow> nat \<Rightarrow> bool" where
  "strncmp_eq s t 0 = True"
| "strncmp_eq s t (Suc n) =
     (let a = (case s of [] \<Rightarrow> NUL | x # _ \<Rightarrow> x);
          b = (case t of [] \<Rightarrow> NUL | y # _ \<Rightarrow> y)
      in a = b \<and> (a = NUL \<or> strncmp_eq (tl s) (tl t) n))"

text \<open>
  \<open>atoi\<close>: leading white space, an optional sign, then decimal digits up to the first
  character that is none (the terminating NUL at the latest).
\<close>

definition isspace :: "char \<Rightarrow> bool" where
  "isspace c = (of_char c = (32::int) \<or> (9 \<le> (of_char c :: int) \<and> (of_char c :: int) \<le> 13))"

definition isdigit :: "char \<Rightarrow> bool" where
  "isdigit c = (48 \<le> (of_char c :: int) \<and> (of_char c :: int) \<le> 57)"

fun atoi_digits :: "int \<Rightarrow> string \<Rightarrow> int" where
  "atoi_digits acc [] = acc"
| "atoi_digits acc (c # cs) =
     (if isdigit c then atoi_digits (acc * 10 + (of_char c - 48)) cs else acc)"

definition atoi :: "string \<Rightarrow> int" where
  "atoi str =
     (case dropWhile isspace str of
        [] \<Rightarrow> 0
      | c # cs \<Rightarrow>
          if c = CHR ''-'' then - atoi_digits 0 cs
          else if c = CHR ''+'' then atoi_digits 0 cs
          else atoi_digits 0 (c # cs))"

text \<open>
  The tail of \<open>ReadWaveformBlock\<close> behind the header chain: terminate the length field,
  convert it, clamp, read the payload into \<open>data\<close>, and return the declared length.
  \<open>getLength\<close> and \<open>len\<close> are \<open>uint32_t\<close>, the return value is \<open>int\<close>.
\<close>

definition read_payload ::
  "32 word \<Rightarrow> string \<Rightarrow> bool \<Rightarrow> string \<Rightarrow> driver \<Rightarrow> (int \<times> string \<times> driver) option" where
  "read_payload maxsize data hdSizeWorkaround packetSizeSequence s =
     (let packetSizeSequence = packetSizeSequence[9 := NUL];
          getLength = (word_of_int (atoi packetSizeSequence) :: 32 word);
          len = getLength;
          len = (if hdSizeWorkaround then len * 2 else len);
          len = min len maxsize
      in do {
        (bytes, s') \<leftarrow> ReadRawData (unat len) s;
        Some (if hdSizeWorkaround then sint (getLength * 2) else sint getLength,
              store_bytes 0 bytes data, s')
      })"

text \<open>
  \<open>ReadWaveformBlock(maxsize, data, hdSizeWorkaround)\<close>. \<open>packetSizeSequence\<close> is the
  local 17-byte array, whose initial content is whatever the stack holds. The result is the
  return value, the caller's buffer and the driver state.
\<close>

definition ReadWaveformBlock ::
  "32 word \<Rightarrow> string \<Rightarrow> bool \<Rightarrow> string \<Rightarrow> driver \<Rightarrow> (int \<times> string \<times> driver) option" where
  "ReadWaveformBlock maxsize data hdSizeWorkaround packetSizeSequence s =
     do {
       (b7, s1) \<leftarrow> ReadRawData 7 s;
       let p = store_bytes 0 b7 packetSizeSequence;
       if strncmp_eq p ''DESC,#9'' 7 \<or> strncmp_eq p ''DAT2,#9'' 7 then
         do {
           (b9, s2) \<leftarrow> ReadRawData 9 s1;
           read_payload maxsize data hdSizeWorkaround (store_bytes 0 b9 p) s2
         }
       else if strncmp_eq (drop 2 p) '':WF D'' 5 then
         do {
           (b6, s2) \<leftarrow> ReadRawData 6 s1;
           (b9, s3) \<leftarrow> ReadRawData 9 s2;
           read_payload maxsize data hdSizeWorkaround (store_bytes 0 b9 (store_bytes 0 b6 p)) s3
         }
       else if strncmp_eq p ''#9'' 2 then
         do {
           let p = store_bytes 0 (take 5 (drop 2 p)) p;
           (b4, s2) \<leftarrow> ReadRawData 4 s1;
           read_payload maxsize data hdSizeWorkaround (store_bytes 5 b4 p) s2
         }
       else Some (0, data, LogError (''ReadWaveformBlock: invalid length format'' @ [CHR 0x0A]) s1)
     }"

text \<open>
  The instrument's side of the block header: a length is sent as nine ASCII decimal
  digits, most significant first.
\<close>

fun decimal_digits :: "nat \<Rightarrow> nat \<Rightarrow> string" where
  "decimal_digits 0 L = []"
| "decimal_digits (Suc n) L = decimal_digits n (L div 10) @ [char_of (48 + L mod 10)]"

section \<open>The capture-file import filter (scopeprotocols/SiglentBINImportFilter.cpp)\<close>

subsection \<open>Conversion of packed digital samples\<close>

text \<open>
  The \<open>bool\<close> array behind \<open>pout\<close> and the byte array behind \<open>pin\<close> are stores
  from element index to value; a pointer is an index into its store, and \<open>pout + off\<close> is
  addition. \<open>size_t\<close> values are natural numbers (no index of a buffer reaches
  \<open>2^64\<close>); \<open>unsigned int\<close> arithmetic is reduced modulo \<open>2^32\<close>.
\<close>

type_synonym bool_array = "nat \<Rightarrow> bool"
type_synonym byte_array = "nat \<Rightarrow> 8 word"

definition ConvertDigitalSamplesGeneric ::
  "bool_array \<Rightarrow> nat \<Rightarrow> byte_array \<Rightarrow> nat \<Rightarrow> nat \<Rightarrow> bool_array" where
  "ConvertDigitalSamplesGeneric out pout inp pin count =
     fold (\<lambda>i. fold (\<lambda>j m. m(pout + (8 * i + j) := (drop_bit j (inp (pin + i)) AND 1) \<noteq> 0))
                   [0..<8])
          [0..<count] out"

text \<open>
  A 256-bit vector is the list of its 32 byte lanes, lane 0 first. \<open>_mm256_set_epi8\<close>
  takes its arguments from lane 31 down to lane 0; \<open>_mm256_set1_epi64x\<close> repeats the
  eight bytes of its argument, least significant first, four times. A stored lane is read
  back from the \<open>bool\<close> array as true unless it is 0.
\<close>

type_synonym m256i = "8 word list"

definition mm256_set1_epi64x :: "64 word \<Rightarrow> m256i" where
  "mm256_set1_epi64x a = concat (replicate 4 (map (\<lambda>i. ucast (drop_bit (8 * i) a)) [0..<8]))"

definition mm256_set1_epi8 :: "8 word \<Rightarrow> m256i" where
  "mm256_set1_epi8 b = replicate 32 b"

definition mm256_set_epi8 :: "8 word list \<Rightarrow> m256i" where
  "mm256_set_epi8 es = rev es"

definition mm256_and_si256 :: "m256i \<Rightarrow> m256i \<Rightarrow> m256i" where
  "mm256_and_si256 a b = map2 (AND) a b"

definition mm256_cmpeq_epi8 :: "m256i \<Rightarrow> m256i \<Rightarrow> m256i" where
  "mm256_cmpeq_epi8 a b = map2 (\<lambda>x y. if x = y then 0xFF else 0) a b"

definition mm256_storeu_si256 :: "bool_array \<Rightarrow> nat \<Rightarrow> m256i \<Rightarrow> bool_array" where
  "mm256_storeu_si256 out p v = fold (\<lambda>n m. m(p + n := v ! n \<noteq> 0)) [0..<32] out"

text \<open>
  The vector loop \<open>for(unsigned int k = 0; k < end; k += 4)\<close>. \<open>end\<close> is a multiple of
  4 below \<open>2^32\<close>, so \<open>k + 4\<close> does not wrap; the store address \<open>pout + (k*8)\<close> has
  its product in \<open>unsigned int\<close>.
\<close>

function avx2_loop ::
  "nat \<Rightarrow> nat \<Rightarrow> bool_array \<Rightarrow> nat \<Rightarrow> byte_array \<Rightarrow> nat \<Rightarrow> bool_array" where
  "avx2_loop k end out pout inp pin =
     (if k < end then
        let bitmask = mm256_set1_epi64x 0x8040201008040201;
            ones = mm256_set1_epi8 0x1;
            block0 = inp (pin + k);
            block1 = inp (pin + (k + 1));
            block2 = inp (pin + (k + 2));
            block3 = inp (pin + (k + 3));
            bc_samps = mm256_set_epi8
              (replicate 8 block3 @ replicate 8 block2 @ replicate 8 block1 @ replicate 8 block0);
            result = mm256_and_si256 bc_samps bitmask;
            result = mm256_cmpeq_epi8 result bitmask;
            result = mm256_and_si256 result ones
        in avx2_loop (k + 4) end
             (mm256_storeu_si256 out (pout + (k * 8) mod 2 ^ 32) result) pout inp pin
      else out)"
  by pat_completeness auto
termination
  by (relation "measure (\<lambda>(k, end, out, pout, inp, pin). end - k)") auto

definition ConvertDigitalSamplesAVX2 ::
  "bool_array \<Rightarrow> nat \<Rightarrow> byte_array \<Rightarrow> nat \<Rightarrow> nat \<Rightarrow> bool_array" where
  "ConvertDigitalSamplesAVX2 out pout inp pin count =
     (let end = (count - count mod 4) mod 2 ^ 32;
          out = avx2_loop 0 end out pout inp pin
      in fold (\<lambda>i. fold (\<lambda>j m. m(pout + (8 * i + j) := (drop_bit j (inp (pin + i)) AND 1) \<noteq> 0))
                       [0..<8])
              [end..<count] out)"

text \<open>
  \<open>ConvertDigitalSamples\<close>. \<open>g_hasAvx2\<close> and the value of
  \<open>omp_get_max_threads()\<close> (at least 1) are arguments. The iterations of the
  \<open>omp parallel for\<close> loop are run in index order. The loop does not synchronise its
  iterations: where the output ranges of two blocks overlap, the real run is a data race
  and the model gives the value of the in-order run only; an output outside the range of
  every block is unwritten in every schedule.
\<close>

definition ConvertDigitalSamples ::
  "bool \<Rightarrow> nat \<Rightarrow> bool_array \<Rightarrow> nat \<Rightarrow> byte_array \<Rightarrow> nat \<Rightarrow> nat \<Rightarrow> bool_array" where
  "ConvertDigitalSamples g_hasAvx2 omp_max_threads out pout inp pin count =
     (if count > 1000000 div 8 then
        let numblocks = omp_max_threads;
            lastblock = numblocks - 1;
            blocksize = count div numblocks;
            blocksize = blocksize - (blocksize mod 4)
        in fold (\<lambda>i out.
                   let nsamp = (if i = lastblock then count - i * blocksize else blocksize);
                       off = i * blocksize
                   in if g_hasAvx2
                      then ConvertDigitalSamplesAVX2 out (pout + off) inp (pin + off) nsamp
                      else ConvertDigitalSamplesGeneric out (pout + off) inp (pin + off) nsamp)
                [0..<numblocks] out
      else if g_hasAvx2 then ConvertDigitalSamplesAVX2 out pout inp pin count
      else ConvertDigitalSamplesGeneric out pout inp pin count)"

text \<open>
  What the unpacking is specified to produce: sample \<open>x\<close> of the bytes that start at
  \<open>pin\<close> is bit \<open>x mod 8\<close> (bit 0 the least significant) of byte \<open>x div 8\<close>.
\<close>

definition unpacked :: "byte_array \<Rightarrow> nat \<Rightarrow> nat \<Rightarrow> bool" where
  "unpacked inp pin x = bit (inp (pin + x div 8)) (x mod 8)"

text \<open>The eight lanes one input byte expands to, named for the proofs.\<close>

definition lane_bits :: "8 word \<Rightarrow> m256i" where
  "lane_bits b = map (\<lambda>j. if bit b j then 1 else 0) [0..<8]"


subsection \<open>The file decoder\<close>

text \<open>
  The fields of the packed \<open>WaveHeader\<close> that \<open>OnFileNameChanged\<close> reads. The
  struct's declaration for this version of the decoder is not among the sources, so the
  decoded header is an argument of the model: arrays are functions from the index, integer
  fields have their declared width, a \<open>double\<close> is an exact real (rounding, infinities
  and NaN are not modelled).
\<close>

record WaveHeader =
  ch_en :: "nat \<Rightarrow> 32 word"
  ch_v_gain :: "nat \<Rightarrow> real"
  ch_v_offset :: "nat \<Rightarrow> real"
  ch_probe :: "nat \<Rightarrow> real"
  ch_codes_per_div :: "nat \<Rightarrow> 32 word"
  digital_en :: "32 word"
  d_ch_en :: "nat \<Rightarrow> 32 word"
  wave_length :: "32 word"
  d_wave_length :: "32 word"
  data_width :: "8 word"
  math_en :: "nat \<Rightarrow> 32 word"
  math_v_gain :: "nat \<Rightarrow> real"
  math_v_offset :: "nat \<Rightarrow> real"
  math_wave_length :: "nat \<Rightarrow> 32 word"
  math_codes_per_div :: "32 word"

datatype StreamType = STREAM_TYPE_ANALOG | STREAM_TYPE_DIGITAL

datatype waveform = UniformAnalogWaveform "real list" | UniformDigitalWaveform "bool list"

text \<open>
  An output stream with the waveform \<open>SetData\<close> attaches to it; the time base and the
  timestamps of the waveform are not modelled.
\<close>

record stream =
  m_name :: string
  m_stype :: StreamType
  m_data :: waveform

text \<open>
  The filter after the call: its output streams and the \<open>LogError\<close> calls, each with
  its format string and argument.
\<close>

record import_filter =
  m_streams :: "stream list"
  log_errors :: "(string \<times> 32 word) list"

text \<open>
  What ends the call without a result: \<open>std::string::copy\<close> throws when the position is
  behind the end of the file, and a read behind the end of the file's bytes, a read of a
  header that was not filled, or a shift by 31 bits or more is undefined.
\<close>

datatype decode_error = out_of_range | undefined_behaviour

text \<open>\<open>std::to_string\<close> of a non-negative number.\<close>

fun to_string :: "nat \<Rightarrow> string" where
  "to_string n =
     (if n < 10 then [char_of (48 + n)] else to_string (n div 10) @ [char_of (48 + n mod 10)])"

text \<open>The little-endian \<open>uint32_t\<close> in the first four bytes of the file.\<close>

definition file_version :: "8 word list \<Rightarrow> 32 word" where
  "file_version f =
     ucast (f ! 0) OR push_bit 8 (ucast (f ! 1)) OR push_bit 16 (ucast (f ! 2))
       OR push_bit 24 (ucast (f ! 3))"

text \<open>
  \<open>f.c_str()\<close>: the bytes of the file followed by a terminating zero byte. Reads
  through \<open>f.c_str() + fpos\<close> are defined up to and including the terminator.
\<close>

definition c_str :: "8 word list \<Rightarrow> 8 word list" where
  "c_str f = f @ [0]"

text \<open>
  Modelled from the spec: \<open>Oscilloscope::ConvertUnsigned8BitSamples\<close> and
  \<open>Oscilloscope::ConvertUnsigned16BitSamples\<close>, which the decoder calls, are not among
  the sources. Following the spec's sample conversion, each raw code, read as unsigned, is
  converted to \<open>code \<times> gain - offset\<close>. The 16-bit codes are read in the byte order of
  the host, little-endian. \<open>mem\<close> is the memory \<open>pin\<close> points into and \<open>pin\<close> the
  index of its first byte there.
\<close>

definition ConvertUnsigned8BitSamples ::
  "8 word list \<Rightarrow> nat \<Rightarrow> real \<Rightarrow> real \<Rightarrow> nat \<Rightarrow> real list" where
  "ConvertUnsigned8BitSamples mem pin gain offset count =
     map (\<lambda>k. real (unat (mem ! (pin + k))) * gain - offset) [0..<count]"

definition ConvertUnsigned16BitSamples ::
  "8 word list \<Rightarrow> nat \<Rightarrow> real \<Rightarrow> real \<Rightarrow> nat \<Rightarrow> real list" where
  "ConvertUnsigned16BitSamples mem pin gain offset count =
     map (\<lambda>k. real (unat (mem ! (pin + 2 * k)) + 256 * unat (mem ! (pin + 2 * k + 1))) * gain - offset)
         [0..<count]"

text \<open>
  The body of the loops over the analog and the math channels for one enabled channel:
  add the stream, convert \<open>count\<close> samples from \<open>fpos\<close> on, advance \<open>fpos\<close> (a
  \<open>uint32_t\<close>). The state of the loops is \<open>fpos\<close> and the streams added so far.
\<close>

definition convert_channel ::
  "8 word list \<Rightarrow> 32 word \<Rightarrow> int \<Rightarrow> string \<Rightarrow> real \<Rightarrow> real \<Rightarrow> 32 word
     \<Rightarrow> 32 word \<times> stream list \<Rightarrow> decode_error + 32 word \<times> stream list" where
  "convert_channel f data_width_bytes center_code name v_gain v_offset count st =
     (let (fpos, streams) = st in
      if data_width_bytes = 2 then
        if unat fpos + 2 * unat count \<le> length (c_str f) then
          Inr (fpos + 2 * count,
               streams @ [\<lparr>m_name = name, m_stype = STREAM_TYPE_ANALOG,
                  m_data = UniformAnalogWaveform
                    (ConvertUnsigned16BitSamples (c_str f) (unat fpos) v_gain
                       (v_gain * real_of_int center_code + v_offset) (unat count))\<rparr>])
        else Inl undefined_behaviour
      else
        if unat fpos + unat count \<le> length (c_str f) then
          Inr (fpos + count,
               streams @ [\<lparr>m_name = name, m_stype = STREAM_TYPE_ANALOG,
                  m_data = UniformAnalogWaveform
                    (ConvertUnsigned8BitSamples (c_str f) (unat fpos) v_gain
                       (v_gain * real_of_int center_code + v_offset) (unat count))\<rparr>])
        else Inl undefined_behaviour)"

definition analog_channel ::
  "8 word list \<Rightarrow> WaveHeader \<Rightarrow> 32 word \<Rightarrow> int \<Rightarrow> nat
     \<Rightarrow> 32 word \<times> stream list \<Rightarrow> decode_error + 32 word \<times> stream list" where
  "analog_channel f wh data_width_bytes center_code i st =
     (if ch_en wh i = 1 then
        convert_channel f data_width_bytes center_code (''C'' @ to_string (i + 1))
          (ch_v_gain wh i * ch_probe wh i / real_of_int (sint (ch_codes_per_div wh i)))
          (ch_v_offset wh i) (wave_length wh) st
      else Inr st)"

definition math_channel ::
  "8 word list \<Rightarrow> WaveHeader \<Rightarrow> 32 word \<Rightarrow> int \<Rightarrow> nat
     \<Rightarrow> 32 word \<times> stream list \<Rightarrow> decode_error + 32 word \<times> stream list" where
  "math_channel f wh data_width_bytes center_code i st =
     (if math_en wh i = 1 then
        convert_channel f data_width_bytes center_code (''F'' @ to_string (i + 1))
          (math_v_gain wh i / real_of_int (sint (math_codes_per_div wh)))
          (math_v_offset wh i) (math_wave_length wh i) st
      else Inr st)"

text \<open>
  The body of the loop over the digital channels. \<open>fresh\<close> is the content of the sample
  buffer that \<open>Resize\<close> hands out.
\<close>

definition digital_channel ::
  "bool \<Rightarrow> nat \<Rightarrow> bool_array \<Rightarrow> 8 word list \<Rightarrow> WaveHeader \<Rightarrow> nat
     \<Rightarrow> 32 word \<times> stream list \<Rightarrow> decode_error + 32 word \<times> stream list" where
  "digital_channel g_hasAvx2 omp_max_threads fresh f wh i st =
     (let (fpos, streams) = st in
      if d_ch_en wh i = 1 then
        if unat fpos + unat (d_wave_length wh) div 8 \<le> length (c_str f) then
          Inr (fpos + d_wave_length wh div 8,
               streams @ [\<lparr>m_name = ''D'' @ to_string i, m_stype = STREAM_TYPE_DIGITAL,
                  m_data = UniformDigitalWaveform
                    (map (ConvertDigitalSamples g_hasAvx2 omp_max_threads fresh 0
                            (\<lambda>k. c_str f ! k) (unat fpos) (unat (d_wave_length wh) div 8))
                         [0..<unat (d_wave_length wh)])\<rparr>])
        else Inl undefined_behaviour
      else Inr st)"

text \<open>A \<open>for\<close> loop over channel indices whose body may end the call.\<close>

fun for_channels ::
  "(nat \<Rightarrow> 's \<Rightarrow> decode_error + 's) \<Rightarrow> nat list \<Rightarrow> 's \<Rightarrow> decode_error + 's" where
  "for_channels body [] st = Inr st"
| "for_channels body (i # is) st =
     (case body i st of Inl e \<Rightarrow> Inl e | Inr st' \<Rightarrow> for_channels body is st')"

text \<open>
  The second half of \<open>OnFileNameChanged\<close>, from "Process analog data" to the end, with
  the payload offset \<open>fpos\<close> the second \<open>switch\<close> has chosen (the local
  \<open>data_width\<close> is \<open>data_width_bytes\<close> here).
\<close>

definition process_payload ::
  "bool \<Rightarrow> nat \<Rightarrow> bool_array \<Rightarrow> 8 word list \<Rightarrow> WaveHeader \<Rightarrow> 32 word
     \<Rightarrow> decode_error + import_filter" where
  "process_payload g_hasAvx2 omp_max_threads fresh f wh fpos =
     (let data_width_bytes = (word_of_int (sint (data_width wh) + 1) :: 32 word);
          shift = unat (8 * data_width_bytes - 1)
      in if 31 \<le> shift then Inl undefined_behaviour
         else
           let center_code = (2 ^ shift - 1 :: int) in
           case for_channels (analog_channel f wh data_width_bytes center_code) [0..<4]
                  (fpos, []) of
             Inl e \<Rightarrow> Inl e
           | Inr st1 \<Rightarrow>
               (case for_channels (math_channel f wh data_width_bytes center_code) [0..<4] st1 of
                  Inl e \<Rightarrow> Inl e
                | Inr st2 \<Rightarrow>
                    if digital_en wh \<noteq> 0 then
                      (case for_channels
                              (digital_channel g_hasAvx2 omp_max_threads fresh f wh)
                              [0..<16] st2 of
                         Inl e \<Rightarrow> Inl e
                       | Inr st3 \<Rightarrow> Inr \<lparr>m_streams = snd st3, log_errors = []\<rparr>)
                    else Inr \<lparr>m_streams = snd st2, log_errors = []\<rparr>))"

text \<open>
  \<open>OnFileNameChanged\<close>, from \<open>ClearStreams()\<close> on; \<open>fname\<close> is the file name
  parameter, \<open>f\<close> the bytes \<open>ReadFile\<close> returns and \<open>wh\<close> what the packed header
  at \<open>fpos\<close> decodes to. \<open>sizeof_WaveHeader\<close> is the size of the packed struct.
\<close>

definition OnFileNameChanged ::
  "bool \<Rightarrow> nat \<Rightarrow> bool_array \<Rightarrow> nat \<Rightarrow> string \<Rightarrow> 8 word list \<Rightarrow> WaveHeader
     \<Rightarrow> decode_error + import_filter" where
  "OnFileNameChanged g_hasAvx2 omp_max_threads fresh sizeof_WaveHeader fname f wh =
     (if fname = [] then Inr \<lparr>m_streams = [], log_errors = []\<rparr>
      else if length f < 4 then Inl undefined_behaviour
      else
        let version = file_version f;
            fpos = (4 :: 32 word)
        in if version \<noteq> 2 \<and> version \<noteq> 4
           then Inr \<lparr>m_streams = [],
                     log_errors = [(''Unsupported version (%d) in file header'' @ [CHR 0x0A], version)]\<rparr>
           else
             let fpos = (if version = 4 then fpos + 4 else fpos) in
             if unat fpos > length f then Inl out_of_range
             else if length f < unat fpos + sizeof_WaveHeader then Inl undefined_behaviour
             else
               let fpos = (if version = 2 then 0x800 else 0x1000 :: 32 word)
               in process_payload g_hasAvx2 omp_max_threads fresh f wh fpos)"

text \<open>
  Names for the proofs about the decoder: the stream the loop body adds for a channel
  converted at \<open>fpos\<close>, the number of bytes \<open>fpos\<close> advances by, the number of enabled
  analog channels before channel \<open>i\<close>, and with them the offset and the stream of analog
  channel \<open>i\<close>.
\<close>

definition channel_stream ::
  "8 word list \<Rightarrow> 32 word \<Rightarrow> int \<Rightarrow> string \<Rightarrow> real \<Rightarrow> real \<Rightarrow> 32 word \<Rightarrow> 32 word \<Rightarrow> stream" where
  "channel_stream f data_width_bytes center_code name v_gain v_offset count fpos =
     \<lparr>m_name = name, m_stype = STREAM_TYPE_ANALOG,
      m_data = UniformAnalogWaveform
        (if data_width_bytes = 2
         then ConvertUnsigned16BitSamples (c_str f) (unat fpos) v_gain
                (v_gain * real_of_int center_code + v_offset) (unat count)
         else ConvertUnsigned8BitSamples (c_str f) (unat fpos) v_gain
                (v_gain * real_of_int center_code + v_offset) (unat count))\<rparr>"

definition payload_size :: "32 word \<Rightarrow> 32 word \<Rightarrow> 32 word" where
  "payload_size data_width_bytes count = (if data_width_bytes = 2 then 2 * count else count)"

definition enabled_before :: "WaveHeader \<Rightarrow> nat \<Rightarrow> nat" where
  "enabled_before wh i = length (filter (\<lambda>k. ch_en wh k = 1) [0..<i])"

definition analog_fpos :: "WaveHeader \<Rightarrow> 32 word \<Rightarrow> 32 word \<Rightarrow> nat \<Rightarrow> 32 word" where
  "analog_fpos wh base dwb i = base + of_nat (enabled_before wh i) * payload_size dwb (wave_length wh)"

definition analog_stream :: "8 word list \<Rightarrow> WaveHeader \<Rightarrow> 32 word \<Rightarrow> 32 word \<Rightarrow> int \<Rightarrow> nat \<Rightarrow> stream" where
  "analog_stream f wh base dwb cc i =
     channel_stream f dwb cc (''C'' @ to_string (i + 1))
       (ch_v_gain wh i * ch_probe wh i / real_of_int (sint (ch_codes_per_div wh i)))
       (ch_v_offset wh i) (wave_length wh) (analog_fpos wh base dwb i)"

text \<open>
  The number of bytes the three loops advance \<open>fpos\<close> by for a header: one or two bytes
  for each sample of every enabled analog and math channel, and \<open>d_wave_length / 8\<close> bytes
  for every enabled digital channel when \<open>digital_en\<close> is set. A file that holds this
  many bytes behind the payload offset is read inside its bytes only.
\<close>

definition declared_payload :: "WaveHeader \<Rightarrow> nat" where
  "declared_payload wh =
     (let w = (if data_width wh = 1 then 2 else 1) in
        sum_list (map (\<lambda>i. if ch_en wh i = 1 then w * unat (wave_length wh) else 0) [0..<4])
      + sum_list (map (\<lambda>i. if math_en wh i = 1 then w * unat (math_wave_length wh i) else 0)
                  [0..<4])
      + (if digital_en wh \<noteq> 0
         then sum_list (map (\<lambda>i. if d_ch_en wh i = 1 then unat (d_wave_length wh) div 8 else 0)
                         [0..<16])
         else 0))"

text \<open>
  The closing block of \<open>EnableChannel\<close> and \<open>DisableChannel\<close>, named for
  the proofs: \<open>if(IsInterleaving() != wasInterleaving)\<close> clears both validity flags.
\<close>

definition invalidate_if_changed :: "bool \<Rightarrow> driver \<Rightarrow> driver" where
  "invalidate_if_changed was s3 =
     (let s4 = snd (IsInterleaving s3)
      in if fst (IsInterleaving s3) \<noteq> was
         then s4\<lparr>m_memoryDepthValid := False, m_sampleRateValid := False\<rparr>
         else s4)"

text \<open>
  The state the constructor leaves behind (\<open>FlushConfigCache\<close> has emptied every
  cache and cleared the validity flags) for an instrument with \<open>n\<close> analog channels,
  before anything is sent. The constructor does not initialise \<open>m_triggerForced\<close>;
  it is false here.
\<close>

definition idle_driver :: "nat \<Rightarrow> driver" where
  "idle_driver n =
     \<lparr>m_analogChannelCount = n, m_triggerArmed = False, m_triggerOneShot = False,
      m_triggerForced = False, m_channelOffsets = Map.empty, m_channelsEnabled = Map.empty,
      m_sampleRateValid = False, m_memoryDepthValid = False,
      tx = [], flushes = 0, rx = [], errors = []\<rparr>"

text \<open>
  A four-channel driver with the enable cache \<open>m\<close> and both timebase caches valid (as
  after \<open>GetSampleRate\<close> and \<open>GetSampleDepth\<close>), nothing else cached.
\<close>

definition valid_timebase :: "(int \<rightharpoonup> bool) \<Rightarrow> driver" where
  "valid_timebase m =
     (idle_driver 4)\<lparr>m_channelsEnabled := m, m_sampleRateValid := True, m_memoryDepthValid := True\<rparr>"


text \<open>
  A capture with the analog channels 1 and 3 enabled, three 8-bit samples each, a gain of
  2 V per division at 25 codes per division behind a 10:1 probe and an offset of 0.5 V; no
  math and no digital channels.
\<close>

definition example_header :: WaveHeader where
  "example_header =
     \<lparr>ch_en = (\<lambda>i. if i = 0 \<or> i = 2 then 1 else 0), ch_v_gain = (\<lambda>_. 2),
      ch_v_offset = (\<lambda>_. 1 / 2), ch_probe = (\<lambda>_. 10), ch_codes_per_div = (\<lambda>_. 25),
      digital_en = 0, d_ch_en = (\<lambda>_. 0), wave_length = 3, d_wave_length = 0, data_width = 0,
      math_en = (\<lambda>_. 0), math_v_gain = (\<lambda>_. 1), math_v_offset = (\<lambda>_. 0),
      math_wave_length = (\<lambda>_. 0), math_codes_per_div = 25\<rparr>"

text \<open>
  The bytes of a file with the version field \<open>version\<close>, zeros up to the payload offset
  \<open>base\<close> and the six raw codes 127, 152, 2 (channel 1) and 0, 255, 127 (channel 3)
  from there on.
\<close>

definition example_file :: "32 word \<Rightarrow> nat \<Rightarrow> 8 word list" where
  "example_file version base =
     [ucast version, 0, 0, 0] @ replicate (base - 4) 0 @ [127, 152, 2, 0, 255, 127]"

section \<open>Properties of the driver\<close>

subsection \<open>Interleaving\<close>

lemma IsInterleaving_result:
  "fst (IsInterleaving s) =
     (\<not> (m_channelsEnabled s 0 = Some True \<and> m_channelsEnabled s 1 = Some True) \<and>
      \<not> (m_channelsEnabled s 3 = Some True \<and> m_channelsEnabled s 4 = Some True))"
  by (auto simp: IsInterleaving_def both_enabled_def map_index_def Let_def
      split: option.splits prod.splits if_splits)

lemma IsInterleaving_cache:
  "m_channelsEnabled (snd (IsInterleaving s)) k =
     (case m_channelsEnabled s k of
        Some v \<Rightarrow> Some v
      | None \<Rightarrow>
          if k = 0
             \<or> (k = 1 \<and> m_channelsEnabled s 0 = Some True)
             \<or> (k = 3 \<and> \<not> (m_channelsEnabled s 0 = Some True \<and> m_channelsEnabled s 1 = Some True))
             \<or> (k = 4 \<and> \<not> (m_channelsEnabled s 0 = Some True \<and> m_channelsEnabled s 1 = Some True)
                       \<and> m_channelsEnabled s 3 = Some True)
          then Some False else None)"
  by (auto simp: IsInterleaving_def both_enabled_def map_index_def Let_def
      split: option.splits prod.splits if_splits)

lemma IsInterleaving_frame:
  "snd (IsInterleaving s) = s\<lparr>m_channelsEnabled := m_channelsEnabled (snd (IsInterleaving s))\<rparr>"
  by (auto simp: IsInterleaving_def both_enabled_def map_index_def Let_def
      split: option.splits prod.splits if_splits)

lemma IsInterleaving_keeps_true:
  "(m_channelsEnabled (snd (IsInterleaving s)) k = Some True) = (m_channelsEnabled s k = Some True)"
  by (simp add: IsInterleaving_cache split: option.splits)

lemma IsInterleaving_flags [simp]:
  "m_sampleRateValid (snd (IsInterleaving s)) = m_sampleRateValid s"
  "m_memoryDepthValid (snd (IsInterleaving s)) = m_memoryDepthValid s"
  "tx (snd (IsInterleaving s)) = tx s"
  "m_analogChannelCount (snd (IsInterleaving s)) = m_analogChannelCount s"
  by (subst IsInterleaving_frame, simp)+

lemma IsInterleaving_idem:
  "fst (IsInterleaving (snd (IsInterleaving s))) = fst (IsInterleaving s)"
  by (simp add: IsInterleaving_result IsInterleaving_keeps_true)

lemma IsInterleaving_cong:
  "m_channelsEnabled s = m_channelsEnabled t \<Longrightarrow> fst (IsInterleaving s) = fst (IsInterleaving t)"
  by (simp add: IsInterleaving_result)

text \<open>
  C1. The claim: \<open>IsInterleaving()\<close> returns false exactly when both channels of the
  pair {0,1} or both channels of the pair {2,3} are enabled. The code tests the keys 3 and 4
  in its second branch, under the comment "Channel 3 and 4" (the instrument's names of the
  channels with index 2 and 3). With the channels of index 2 and 3 enabled and 0, 1 disabled
  it reports interleaving; with the keys 3 and 4 enabled and index 2 disabled it reports
  none.
\<close>

theorem IsInterleaving_tests_keys_3_4:
  "fst (IsInterleaving
          (s\<lparr>m_channelsEnabled := [0 \<mapsto> False, 1 \<mapsto> False, 2 \<mapsto> True, 3 \<mapsto> True]\<rparr>)) = True
   \<and> fst (IsInterleaving
          (s\<lparr>m_channelsEnabled :=
               [0 \<mapsto> False, 1 \<mapsto> False, 2 \<mapsto> False, 3 \<mapsto> True, 4 \<mapsto> True]\<rparr>)) = False"
  by (simp add: IsInterleaving_result)

subsection \<open>Enable-state changes and the timebase caches\<close>

lemma EnableChannel_unfold:
  "EnableChannel i s =
     (let s1 = snd (IsInterleaving s);
          s2 = (if i < m_analogChannelCount s1
                then sendOnly (CHANNEL_SWITCH_ON (i + 1)) s1
                else LogError (''Unsupported channel type'' @ [CHR 0x0A]) s1);
          s3 = s2\<lparr>m_channelsEnabled := (m_channelsEnabled s2)(int_of_size_t i \<mapsto> True)\<rparr>;
          s4 = snd (IsInterleaving s3)
      in if fst (IsInterleaving s3) \<noteq> fst (IsInterleaving s)
         then s4\<lparr>m_memoryDepthValid := False, m_sampleRateValid := False\<rparr>
         else s4)"
  by (simp add: EnableChannel_def Let_def case_prod_beta)

lemma DisableChannel_unfold:
  "DisableChannel i s =
     (let s1 = snd (IsInterleaving s);
          s2 = s1\<lparr>m_channelsEnabled := (m_channelsEnabled s1)(int_of_size_t i \<mapsto> False)\<rparr>;
          s3 = (if i < m_analogChannelCount s2
                then sendOnly (CHANNEL_SWITCH_OFF (i + 1)) s2
                else s2);
          s4 = snd (IsInterleaving s3)
      in if fst (IsInterleaving s3) \<noteq> fst (IsInterleaving s)
         then s4\<lparr>m_memoryDepthValid := False, m_sampleRateValid := False\<rparr>
         else s4)"
  by (simp add: DisableChannel_def Let_def case_prod_beta)

lemma invalidate_if_changed_interleaving:
  "fst (IsInterleaving (invalidate_if_changed was s3)) = fst (IsInterleaving s3)"
proof -
  have "m_channelsEnabled (invalidate_if_changed was s3) = m_channelsEnabled (snd (IsInterleaving s3))"
    by (simp add: invalidate_if_changed_def Let_def)
  then have "fst (IsInterleaving (invalidate_if_changed was s3)) = fst (IsInterleaving (snd (IsInterleaving s3)))"
    by (rule IsInterleaving_cong)
  then show ?thesis by (simp only: IsInterleaving_idem)
qed

lemma invalidate_if_changed_flags:
  "m_sampleRateValid (invalidate_if_changed was s3) =
     (if fst (IsInterleaving s3) \<noteq> was then False else m_sampleRateValid s3)"
  "m_memoryDepthValid (invalidate_if_changed was s3) =
     (if fst (IsInterleaving s3) \<noteq> was then False else m_memoryDepthValid s3)"
  by (simp_all add: invalidate_if_changed_def Let_def)

lemma EnableChannel_steps:
  "EnableChannel i s =
     invalidate_if_changed (fst (IsInterleaving s))
       ((if i < m_analogChannelCount s
         then sendOnly (CHANNEL_SWITCH_ON (i + 1)) (snd (IsInterleaving s))
         else LogError (''Unsupported channel type'' @ [CHR 0x0A]) (snd (IsInterleaving s)))
        \<lparr>m_channelsEnabled :=
           (m_channelsEnabled (snd (IsInterleaving s)))(int_of_size_t i \<mapsto> True)\<rparr>)"
  by (simp add: EnableChannel_unfold invalidate_if_changed_def Let_def sendOnly_def LogError_def)

lemma DisableChannel_steps:
  "DisableChannel i s =
     invalidate_if_changed (fst (IsInterleaving s))
       (if i < m_analogChannelCount s
        then sendOnly (CHANNEL_SWITCH_OFF (i + 1))
               ((snd (IsInterleaving s))\<lparr>m_channelsEnabled :=
                  (m_channelsEnabled (snd (IsInterleaving s)))(int_of_size_t i \<mapsto> False)\<rparr>)
        else (snd (IsInterleaving s))\<lparr>m_channelsEnabled :=
                  (m_channelsEnabled (snd (IsInterleaving s)))(int_of_size_t i \<mapsto> False)\<rparr>)"
  by (simp add: DisableChannel_unfold invalidate_if_changed_def Let_def)

lemma IsInterleaving_written:
  "fst (IsInterleaving (t\<lparr>m_channelsEnabled :=
          (m_channelsEnabled (snd (IsInterleaving s)))(k \<mapsto> v)\<rparr>))
   = fst (IsInterleaving (s\<lparr>m_channelsEnabled := (m_channelsEnabled s)(k \<mapsto> v)\<rparr>))"
  by (simp add: IsInterleaving_result IsInterleaving_keeps_true)

lemma invalidate_if_changed_cache:
  "m_channelsEnabled s3 k = Some v \<Longrightarrow> m_channelsEnabled (invalidate_if_changed was s3) k = Some v"
  by (simp add: invalidate_if_changed_def Let_def IsInterleaving_cache)

text \<open>
  C8. For every channel index \<open>i\<close> and every prior state, \<open>EnableChannel\<close> leaves key
  \<open>i\<close> of the enable cache true and \<open>DisableChannel\<close> leaves it false, and
  \<open>IsInterleaving\<close> on the state they leave reports what it reports on the prior state
  with that one entry written. Both functions clear the sample-rate and the memory-depth
  validity flag exactly when that value differs from what \<open>IsInterleaving\<close> reports on
  the prior state; otherwise both flags keep their prior values.
\<close>

theorem enable_state_change_invalidates:
  "m_channelsEnabled (EnableChannel i s) (int_of_size_t i) = Some True
   \<and> fst (IsInterleaving (EnableChannel i s))
       = fst (IsInterleaving (s\<lparr>m_channelsEnabled := (m_channelsEnabled s)(int_of_size_t i \<mapsto> True)\<rparr>))
   \<and> m_sampleRateValid (EnableChannel i s) =
     (if fst (IsInterleaving (s\<lparr>m_channelsEnabled := (m_channelsEnabled s)(int_of_size_t i \<mapsto> True)\<rparr>))
           \<noteq> fst (IsInterleaving s)
      then False else m_sampleRateValid s)
   \<and> m_memoryDepthValid (EnableChannel i s) =
     (if fst (IsInterleaving (s\<lparr>m_channelsEnabled := (m_channelsEnabled s)(int_of_size_t i \<mapsto> True)\<rparr>))
           \<noteq> fst (IsInterleaving s)
      then False else m_memoryDepthValid s)
   \<and> m_channelsEnabled (DisableChannel i s) (int_of_size_t i) = Some False
   \<and> fst (IsInterleaving (DisableChannel i s))
       = fst (IsInterleaving (s\<lparr>m_channelsEnabled := (m_channelsEnabled s)(int_of_size_t i \<mapsto> False)\<rparr>))
   \<and> m_sampleRateValid (DisableChannel i s) =
     (if fst (IsInterleaving (s\<lparr>m_channelsEnabled := (m_channelsEnabled s)(int_of_size_t i \<mapsto> False)\<rparr>))
           \<noteq> fst (IsInterleaving s)
      then False else m_sampleRateValid s)
   \<and> m_memoryDepthValid (DisableChannel i s) =
     (if fst (IsInterleaving (s\<lparr>m_channelsEnabled := (m_channelsEnabled s)(int_of_size_t i \<mapsto> False)\<rparr>))
           \<noteq> fst (IsInterleaving s)
      then False else m_memoryDepthValid s)"
proof -
  let ?k = "int_of_size_t i"
  let ?e = "(if i < m_analogChannelCount s
         then sendOnly (CHANNEL_SWITCH_ON (i + 1)) (snd (IsInterleaving s))
         else LogError (''Unsupported channel type'' @ [CHR 0x0A]) (snd (IsInterleaving s)))
        \<lparr>m_channelsEnabled := (m_channelsEnabled (snd (IsInterleaving s)))(?k \<mapsto> True)\<rparr>"
  let ?d = "(if i < m_analogChannelCount s
        then sendOnly (CHANNEL_SWITCH_OFF (i + 1))
               ((snd (IsInterleaving s))\<lparr>m_channelsEnabled :=
                  (m_channelsEnabled (snd (IsInterleaving s)))(?k \<mapsto> False)\<rparr>)
        else (snd (IsInterleaving s))\<lparr>m_channelsEnabled :=
                  (m_channelsEnabled (snd (IsInterleaving s)))(?k \<mapsto> False)\<rparr>)"
  have ee: "?e = ?e\<lparr>m_channelsEnabled := (m_channelsEnabled (snd (IsInterleaving s)))(?k \<mapsto> True)\<rparr>"
    by simp
  have de: "?d = ?d\<lparr>m_channelsEnabled := (m_channelsEnabled (snd (IsInterleaving s)))(?k \<mapsto> False)\<rparr>"
    by (simp add: sendOnly_def)
  have ie: "fst (IsInterleaving ?e)
      = fst (IsInterleaving (s\<lparr>m_channelsEnabled := (m_channelsEnabled s)(?k \<mapsto> True)\<rparr>))"
    by (subst ee) (rule IsInterleaving_written)
  have id: "fst (IsInterleaving ?d)
      = fst (IsInterleaving (s\<lparr>m_channelsEnabled := (m_channelsEnabled s)(?k \<mapsto> False)\<rparr>))"
    by (subst de) (rule IsInterleaving_written)
  have ce: "m_channelsEnabled ?e ?k = Some True" by simp
  have cd: "m_channelsEnabled ?d ?k = Some False" by (simp add: sendOnly_def)
  have fe: "m_sampleRateValid ?e = m_sampleRateValid s" "m_memoryDepthValid ?e = m_memoryDepthValid s"
    by (simp_all add: sendOnly_def LogError_def)
  have fd: "m_sampleRateValid ?d = m_sampleRateValid s" "m_memoryDepthValid ?d = m_memoryDepthValid s"
    by (simp_all add: sendOnly_def)
  have e: "m_channelsEnabled (EnableChannel i s) ?k = Some True"
    "fst (IsInterleaving (EnableChannel i s))
       = fst (IsInterleaving (s\<lparr>m_channelsEnabled := (m_channelsEnabled s)(?k \<mapsto> True)\<rparr>))"
    "m_sampleRateValid (EnableChannel i s) =
     (if fst (IsInterleaving (s\<lparr>m_channelsEnabled := (m_channelsEnabled s)(?k \<mapsto> True)\<rparr>))
           \<noteq> fst (IsInterleaving s)
      then False else m_sampleRateValid s)"
    "m_memoryDepthValid (EnableChannel i s) =
     (if fst (IsInterleaving (s\<lparr>m_channelsEnabled := (m_channelsEnabled s)(?k \<mapsto> True)\<rparr>))
           \<noteq> fst (IsInterleaving s)
      then False else m_memoryDepthValid s)"
    unfolding EnableChannel_steps invalidate_if_changed_interleaving invalidate_if_changed_flags
      ie fe
    by (rule invalidate_if_changed_cache [OF ce], rule refl, rule refl, rule refl)
  have d: "m_channelsEnabled (DisableChannel i s) ?k = Some False"
    "fst (IsInterleaving (DisableChannel i s))
       = fst (IsInterleaving (s\<lparr>m_channelsEnabled := (m_channelsEnabled s)(?k \<mapsto> False)\<rparr>))"
    "m_sampleRateValid (DisableChannel i s) =
     (if fst (IsInterleaving (s\<lparr>m_channelsEnabled := (m_channelsEnabled s)(?k \<mapsto> False)\<rparr>))
           \<noteq> fst (IsInterleaving s)
      then False else m_sampleRateValid s)"
    "m_memoryDepthValid (DisableChannel i s) =
     (if fst (IsInterleaving (s\<lparr>m_channelsEnabled := (m_channelsEnabled s)(?k \<mapsto> False)\<rparr>))
           \<noteq> fst (IsInterleaving s)
      then False else m_memoryDepthValid s)"
    unfolding DisableChannel_steps invalidate_if_changed_interleaving invalidate_if_changed_flags
      id fd
    by (rule invalidate_if_changed_cache [OF cd], rule refl, rule refl, rule refl)
  from e d show ?thesis by blast
qed

theorem enable_state_change_invalidates_witness:
  "m_sampleRateValid (valid_timebase [0 \<mapsto> True]) \<and> m_memoryDepthValid (valid_timebase [0 \<mapsto> True])
   \<and> fst (IsInterleaving (valid_timebase [0 \<mapsto> True]))
   \<and> \<not> fst (IsInterleaving (EnableChannel 1 (valid_timebase [0 \<mapsto> True])))
   \<and> \<not> m_sampleRateValid (EnableChannel 1 (valid_timebase [0 \<mapsto> True]))
   \<and> \<not> m_memoryDepthValid (EnableChannel 1 (valid_timebase [0 \<mapsto> True]))
   \<and> m_channelsEnabled (EnableChannel 1 (valid_timebase [0 \<mapsto> True])) 1 = Some True
   \<and> fst (IsInterleaving (EnableChannel 2 (valid_timebase [0 \<mapsto> True])))
   \<and> m_sampleRateValid (EnableChannel 2 (valid_timebase [0 \<mapsto> True]))
   \<and> m_memoryDepthValid (EnableChannel 2 (valid_timebase [0 \<mapsto> True]))
   \<and> \<not> fst (IsInterleaving (valid_timebase [0 \<mapsto> True, 1 \<mapsto> True]))
   \<and> fst (IsInterleaving (DisableChannel 0 (valid_timebase [0 \<mapsto> True, 1 \<mapsto> True])))
   \<and> \<not> m_sampleRateValid (DisableChannel 0 (valid_timebase [0 \<mapsto> True, 1 \<mapsto> True]))
   \<and> \<not> m_memoryDepthValid (DisableChannel 0 (valid_timebase [0 \<mapsto> True, 1 \<mapsto> True]))
   \<and> m_channelsEnabled (DisableChannel 0 (valid_timebase [0 \<mapsto> True, 1 \<mapsto> True])) 0 = Some False
   \<and> m_sampleRateValid (DisableChannel 2 (valid_timebase [0 \<mapsto> True, 1 \<mapsto> True]))
   \<and> m_memoryDepthValid (DisableChannel 2 (valid_timebase [0 \<mapsto> True, 1 \<mapsto> True]))"
proof -
  let ?a = "valid_timebase [0 \<mapsto> True]"
  let ?b = "valid_timebase [0 \<mapsto> True, 1 \<mapsto> True]"
  have k: "int_of_size_t 0 = 0" "int_of_size_t 1 = 1" "int_of_size_t 2 = 2"
    by (simp_all add: int_of_size_t_def)
  have f: "m_sampleRateValid (valid_timebase m)" "m_memoryDepthValid (valid_timebase m)" for m
    by (simp_all add: valid_timebase_def)
  have p: "fst (IsInterleaving ?a)"
    "\<not> fst (IsInterleaving (?a\<lparr>m_channelsEnabled := (m_channelsEnabled ?a)(1 \<mapsto> True)\<rparr>))"
    "fst (IsInterleaving (?a\<lparr>m_channelsEnabled := (m_channelsEnabled ?a)(2 \<mapsto> True)\<rparr>))"
    "\<not> fst (IsInterleaving ?b)"
    "fst (IsInterleaving (?b\<lparr>m_channelsEnabled := (m_channelsEnabled ?b)(0 \<mapsto> False)\<rparr>))"
    "\<not> fst (IsInterleaving (?b\<lparr>m_channelsEnabled := (m_channelsEnabled ?b)(2 \<mapsto> False)\<rparr>))"
    by (simp_all add: IsInterleaving_result valid_timebase_def)
  note t1 = enable_state_change_invalidates [of 1 ?a, unfolded k]
  note t2 = enable_state_change_invalidates [of 2 ?a, unfolded k]
  note t3 = enable_state_change_invalidates [of 0 ?b, unfolded k]
  note t4 = enable_state_change_invalidates [of 2 ?b, unfolded k]
  from t1 p(1,2) f have 1: "\<not> fst (IsInterleaving (EnableChannel 1 ?a))"
    "\<not> m_sampleRateValid (EnableChannel 1 ?a)" "\<not> m_memoryDepthValid (EnableChannel 1 ?a)"
    "m_channelsEnabled (EnableChannel 1 ?a) 1 = Some True"
    by simp_all
  from t2 p(1,3) f have 2: "fst (IsInterleaving (EnableChannel 2 ?a))"
    "m_sampleRateValid (EnableChannel 2 ?a)" "m_memoryDepthValid (EnableChannel 2 ?a)"
    by simp_all
  from t3 p(4,5) f have 3: "fst (IsInterleaving (DisableChannel 0 ?b))"
    "\<not> m_sampleRateValid (DisableChannel 0 ?b)" "\<not> m_memoryDepthValid (DisableChannel 0 ?b)"
    "m_channelsEnabled (DisableChannel 0 ?b) 0 = Some False"
    by simp_all
  from t4 p(4,6) f have 4: "m_sampleRateValid (DisableChannel 2 ?b)"
    "m_memoryDepthValid (DisableChannel 2 ?b)"
    by simp_all
  from f p(1,4) 1 2 3 4 show ?thesis by blast
qed

subsection \<open>Default insertion into the enable cache\<close>

text \<open>
  C10, as stated, fails: on the constructor's state (no cache entry at all) the first
  operand of each \<open>&&\<close> is false, so the keys 1 and 4 are never looked up. Key 1 has no
  entry before the call and none after it, and a following \<open>IsChannelEnabled(1)\<close> asks the
  instrument.
\<close>

theorem IsInterleaving_skips_keys:
  "m_channelsEnabled (idle_driver 4) 1 = None
   \<and> m_channelsEnabled (snd (IsInterleaving (idle_driver 4))) 1 \<noteq> Some False
   \<and> tx (snd (IsChannelEnabled ''ON'' 1 (snd (IsInterleaving (idle_driver 4))))) = [CHANNEL_SWITCH_Q 2]"
  by (simp add: IsInterleaving_cache idle_driver_def IsChannelEnabled_def int_of_size_t_def
      converse_def map_index_def Let_def)

lemma IsChannelEnabled_cached:
  "m_channelsEnabled s (int_of_size_t i) = Some v \<Longrightarrow> IsChannelEnabled reply i s = (v, s)"
  by (simp add: IsChannelEnabled_def)

text \<open>
  C10, amended. \<open>IsInterleaving()\<close> changes nothing but the enable cache (so it sends no
  command), and never changes an existing entry. It inserts a false entry for exactly the
  missing keys it evaluates: key 0 always; key 1 when key 0 is cached enabled; key 3 unless
  keys 0 and 1 are both cached enabled; key 4 when, in addition, key 3 is cached enabled.
  A following \<open>IsChannelEnabled\<close> on an index whose entry was inserted returns that false
  and leaves the state (and so the command queue) as it is.
\<close>

theorem IsInterleaving_default_inserts:
  "(snd (IsInterleaving s))\<lparr>m_channelsEnabled := m_channelsEnabled s\<rparr> = s
   \<and> m_channelsEnabled (snd (IsInterleaving s)) k =
     (case m_channelsEnabled s k of
        Some v \<Rightarrow> Some v
      | None \<Rightarrow>
          if k = 0
             \<or> (k = 1 \<and> m_channelsEnabled s 0 = Some True)
             \<or> (k = 3 \<and> \<not> (m_channelsEnabled s 0 = Some True \<and> m_channelsEnabled s 1 = Some True))
             \<or> (k = 4 \<and> \<not> (m_channelsEnabled s 0 = Some True \<and> m_channelsEnabled s 1 = Some True)
                       \<and> m_channelsEnabled s 3 = Some True)
          then Some False else None)
   \<and> (m_channelsEnabled s (int_of_size_t i) = None \<and>
      m_channelsEnabled (snd (IsInterleaving s)) (int_of_size_t i) \<noteq> None \<longrightarrow>
        IsChannelEnabled reply i (snd (IsInterleaving s)) = (False, snd (IsInterleaving s)))"
proof (intro conjI impI)
  show "(snd (IsInterleaving s))\<lparr>m_channelsEnabled := m_channelsEnabled s\<rparr> = s"
    by (subst IsInterleaving_frame) simp
  show "m_channelsEnabled (snd (IsInterleaving s)) k =
     (case m_channelsEnabled s k of
        Some v \<Rightarrow> Some v
      | None \<Rightarrow>
          if k = 0
             \<or> (k = 1 \<and> m_channelsEnabled s 0 = Some True)
             \<or> (k = 3 \<and> \<not> (m_channelsEnabled s 0 = Some True \<and> m_channelsEnabled s 1 = Some True))
             \<or> (k = 4 \<and> \<not> (m_channelsEnabled s 0 = Some True \<and> m_channelsEnabled s 1 = Some True)
                       \<and> m_channelsEnabled s 3 = Some True)
          then Some False else None)"
    by (rule IsInterleaving_cache)
next
  assume a: "m_channelsEnabled s (int_of_size_t i) = None \<and>
      m_channelsEnabled (snd (IsInterleaving s)) (int_of_size_t i) \<noteq> None"
  then have "m_channelsEnabled (snd (IsInterleaving s)) (int_of_size_t i) = Some False"
    by (auto simp: IsInterleaving_cache split: option.splits if_splits)
  then show "IsChannelEnabled reply i (snd (IsInterleaving s)) = (False, snd (IsInterleaving s))"
    by (rule IsChannelEnabled_cached)
qed

theorem IsInterleaving_default_inserts_witness:
  "m_channelsEnabled (idle_driver 4) (int_of_size_t 3) = None
   \<and> m_channelsEnabled (snd (IsInterleaving (idle_driver 4))) (int_of_size_t 3) = Some False
   \<and> m_channelsEnabled (snd (IsInterleaving (idle_driver 4))) (int_of_size_t 1) = None
   \<and> IsChannelEnabled ''ON'' 3 (snd (IsInterleaving (idle_driver 4)))
       = (False, snd (IsInterleaving (idle_driver 4)))
   \<and> tx (snd (IsInterleaving (idle_driver 4))) = []"
  using IsInterleaving_default_inserts [of "idle_driver 4" "int_of_size_t 3" 3 "''ON''"]
        IsInterleaving_default_inserts [of "idle_driver 4" "int_of_size_t 1" 1 "''ON''"]
  by (simp add: idle_driver_def int_of_size_t_def IsInterleaving_def both_enabled_def
      map_index_def IsChannelEnabled_def)

subsection \<open>Trigger polling\<close>

text \<open>
  C4. \<open>PollTrigger\<close> in every state: a pending force-trigger clears the pending and the
  armed flag and reports TRIGGERED with the state otherwise unchanged (no query is sent);
  otherwise the instrument is asked, and "Arm" or "Ready" sets armed and reports RUN;
  "Stop" reports TRIGGERED and clears armed when armed and one-shot, reports TRIGGERED and
  stays armed when armed and not one-shot, reports STOP when not armed; any other status
  reports RUN. After \<open>ForceTrigger\<close> the next poll reports TRIGGERED without a query and
  clears the pending flag, and the poll after it does not report TRIGGERED, whatever the
  instrument answers.
\<close>

theorem PollTrigger_transitions:
  "(m_triggerForced s \<longrightarrow>
      PollTrigger sinr s =
        (TRIGGER_MODE_TRIGGERED, s\<lparr>m_triggerForced := False, m_triggerArmed := False\<rparr>))
   \<and> (\<not> m_triggerForced s \<and> (sinr = ''Arm'' \<or> sinr = ''Ready'') \<longrightarrow>
      PollTrigger sinr s =
        (TRIGGER_MODE_RUN, (converse TRIGGER_STATUS_Q s)\<lparr>m_triggerArmed := True\<rparr>))
   \<and> (\<not> m_triggerForced s \<and> sinr = ''Stop'' \<and> m_triggerArmed s \<and> m_triggerOneShot s \<longrightarrow>
      PollTrigger sinr s =
        (TRIGGER_MODE_TRIGGERED, (converse TRIGGER_STATUS_Q s)\<lparr>m_triggerArmed := False\<rparr>))
   \<and> (\<not> m_triggerForced s \<and> sinr = ''Stop'' \<and> m_triggerArmed s \<and> \<not> m_triggerOneShot s \<longrightarrow>
      PollTrigger sinr s = (TRIGGER_MODE_TRIGGERED, converse TRIGGER_STATUS_Q s)
      \<and> m_triggerArmed (snd (PollTrigger sinr s)))
   \<and> (\<not> m_triggerForced s \<and> sinr = ''Stop'' \<and> \<not> m_triggerArmed s \<longrightarrow>
      PollTrigger sinr s = (TRIGGER_MODE_STOP, converse TRIGGER_STATUS_Q s))
   \<and> (\<not> m_triggerForced s \<and> sinr \<noteq> ''Arm'' \<and> sinr \<noteq> ''Ready'' \<and> sinr \<noteq> ''Stop'' \<longrightarrow>
      PollTrigger sinr s = (TRIGGER_MODE_RUN, converse TRIGGER_STATUS_Q s))
   \<and> fst (PollTrigger sinr (ForceTrigger s)) = TRIGGER_MODE_TRIGGERED
   \<and> tx (snd (PollTrigger sinr (ForceTrigger s))) = tx (ForceTrigger s)
   \<and> \<not> m_triggerForced (snd (PollTrigger sinr (ForceTrigger s)))
   \<and> fst (PollTrigger sinr' (snd (PollTrigger sinr (ForceTrigger s)))) \<noteq> TRIGGER_MODE_TRIGGERED"
  by (simp add: PollTrigger_def ForceTrigger_def converse_def sendOnly_def FlushCommandQueue_def
      Let_def)

theorem PollTrigger_transitions_witness:
  "PollTrigger ''Arm'' (idle_driver 4)
     = (TRIGGER_MODE_RUN, (idle_driver 4)\<lparr>m_triggerArmed := True, tx := [TRIGGER_STATUS_Q]\<rparr>)
   \<and> fst (PollTrigger ''Stop''
            ((idle_driver 4)\<lparr>m_triggerArmed := True, m_triggerOneShot := True\<rparr>))
       = TRIGGER_MODE_TRIGGERED
   \<and> \<not> m_triggerArmed (snd (PollTrigger ''Stop''
            ((idle_driver 4)\<lparr>m_triggerArmed := True, m_triggerOneShot := True\<rparr>)))
   \<and> m_triggerArmed (snd (PollTrigger ''Stop'' ((idle_driver 4)\<lparr>m_triggerArmed := True\<rparr>)))
   \<and> fst (PollTrigger ''Stop'' (idle_driver 4)) = TRIGGER_MODE_STOP
   \<and> fst (PollTrigger ''Auto'' (idle_driver 4)) = TRIGGER_MODE_RUN
   \<and> PollTrigger ''Arm'' (ForceTrigger (idle_driver 4))
       = (TRIGGER_MODE_TRIGGERED,
          (idle_driver 4)\<lparr>m_triggerOneShot := True, tx := [TRIGGER_MODE_FTRIG], flushes := 1\<rparr>)
   \<and> fst (PollTrigger ''Stop'' (snd (PollTrigger ''Arm'' (ForceTrigger (idle_driver 4)))))
       = TRIGGER_MODE_STOP"
  using PollTrigger_transitions [of "idle_driver 4" "''Arm''" "''Stop''"]
        PollTrigger_transitions
          [of "(idle_driver 4)\<lparr>m_triggerArmed := True, m_triggerOneShot := True\<rparr>" "''Stop''" "''Stop''"]
        PollTrigger_transitions [of "(idle_driver 4)\<lparr>m_triggerArmed := True\<rparr>" "''Stop''" "''Stop''"]
        PollTrigger_transitions [of "idle_driver 4" "''Stop''" "''Stop''"]
        PollTrigger_transitions [of "idle_driver 4" "''Auto''" "''Stop''"]
  by (simp add: idle_driver_def PollTrigger_def ForceTrigger_def converse_def sendOnly_def
      FlushCommandQueue_def Let_def)

subsection \<open>Channel offset of an index that is no analog channel\<close>

text \<open>
  C9. The claim: for every index \<open>i \<ge> analogChannelCount\<close> the offset setter ignores
  the request and the getter returns 0 without a round trip. The guard of both functions is
  \<open>i > m_analogChannelCount\<close>: on a four-channel instrument the index 4 passes it. The
  setter sends \<open>:CHANNEL5:OFFSET\<close> and caches the value, the getter asks the instrument
  and caches the answer; from index 5 on both do what the claim says.
\<close>

theorem offset_guard_admits_channel_count:
  "SetChannelOffset 4 (1/2) (idle_driver 4)
     = (idle_driver 4)\<lparr>m_channelOffsets := [4 \<mapsto> 1/2], tx := [CHANNEL_OFFSET 5 (1/2)]\<rparr>
   \<and> GetChannelOffset (1/4) 4 (idle_driver 4)
     = (1/4, (idle_driver 4)\<lparr>m_channelOffsets := [4 \<mapsto> 1/4], tx := [CHANNEL_OFFSET_Q 5]\<rparr>)
   \<and> SetChannelOffset 5 (1/2) (idle_driver 4) = idle_driver 4
   \<and> GetChannelOffset (1/4) 5 (idle_driver 4) = (0, idle_driver 4)"
  by (simp add: SetChannelOffset_def GetChannelOffset_def idle_driver_def sendOnly_def converse_def)

section \<open>Properties of the waveform block transfer\<close>

subsection \<open>String comparison and number conversion\<close>

lemma strncmp_eq_take:
  "length t = n \<Longrightarrow> NUL \<notin> set t \<Longrightarrow> n \<le> length s \<Longrightarrow> strncmp_eq s t n = (take n s = t)"
proof (induction n arbitrary: s t)
  case 0
  then show ?case by simp
next
  case (Suc n)
  then obtain a s' where s: "s = a # s'" by (cases s) auto
  from Suc obtain b t' where t: "t = b # t'" by (cases t) auto
  from Suc.prems s t have "strncmp_eq s' t' n = (take n s' = t')"
    by (intro Suc.IH) auto
  with Suc.prems s t show ?case by (auto simp: Let_def)
qed

lemma isdigit_not_special:
  "isdigit c \<Longrightarrow> \<not> isspace c \<and> c \<noteq> CHR ''-'' \<and> c \<noteq> CHR ''+''"
  by (auto simp: isdigit_def isspace_def)

lemma NUL_not_digit: "\<not> isdigit NUL"
  by (simp add: isdigit_def NUL_def)

lemma atoi_digits_stop:
  "\<forall>c\<in>set d. isdigit c \<Longrightarrow> \<not> isdigit x \<Longrightarrow> atoi_digits acc (d @ x # r) = atoi_digits acc d"
  by (induction d arbitrary: acc) auto

lemma atoi_all_digits:
  "\<forall>c\<in>set d. isdigit c \<Longrightarrow> atoi d = atoi_digits 0 d"
  by (cases d) (auto simp: atoi_def dest: isdigit_not_special)

lemma atoi_digits_then_NUL:
  assumes "\<forall>c\<in>set d. isdigit c" "d \<noteq> []"
  shows "atoi (d @ NUL # r) = atoi d"
proof -
  from assms obtain c cs where d: "d = c # cs" by (cases d) auto
  with assms have c: "isdigit c" by simp
  have "atoi (d @ NUL # r) = atoi_digits 0 (d @ NUL # r)"
    using isdigit_not_special [OF c] by (simp add: atoi_def d)
  also have "\<dots> = atoi_digits 0 d"
    using assms(1) NUL_not_digit by (rule atoi_digits_stop)
  finally show ?thesis by (simp add: atoi_all_digits [OF assms(1)])
qed

lemma atoi_digits_snoc:
  "\<forall>c\<in>set d. isdigit c \<Longrightarrow> isdigit x \<Longrightarrow>
     atoi_digits acc (d @ [x]) = atoi_digits acc d * 10 + (of_char x - 48)"
  by (induction d arbitrary: acc) auto

lemma atoi_digits_bounds:
  "\<forall>c\<in>set d. isdigit c \<Longrightarrow> 0 \<le> atoi_digits 0 d \<and> atoi_digits 0 d < 10 ^ length d"
proof (induction d rule: rev_induct)
  case Nil
  then show ?case by simp
next
  case (snoc x d)
  then have x: "48 \<le> (of_char x :: int)" "(of_char x :: int) \<le> 57" and d: "\<forall>c\<in>set d. isdigit c"
    by (auto simp: isdigit_def)
  from snoc.prems have dx: "isdigit x" by simp
  from snoc.IH [OF d] have ih: "0 \<le> atoi_digits 0 d" "atoi_digits 0 d < 10 ^ length d"
    by simp_all
  have e: "atoi_digits 0 (d @ [x]) = atoi_digits 0 d * 10 + (of_char x - 48)"
    by (rule atoi_digits_snoc [OF d dx])
  have p: "(10::int) ^ length (d @ [x]) = 10 ^ length d * 10" by simp
  from ih x show ?case unfolding e p by linarith
qed

lemma atoi_nine_digits:
  assumes "\<forall>c\<in>set d. isdigit c" "length d = 9"
  shows "0 \<le> atoi d" "atoi d < 1000000000"
  using atoi_digits_bounds [OF assms(1)] assms(2) by (simp_all add: atoi_all_digits [OF assms(1)])

lemma decimal_digits_length [simp]: "length (decimal_digits n L) = n"
  by (induction n arbitrary: L) auto

lemma digit_char_val: "(of_char (char_of (48 + L mod 10 :: nat)) :: int) = 48 + int (L mod 10)"
proof -
  have "L mod 10 < 10" by simp
  then have "(48 + L mod 10) mod 256 = 48 + L mod 10" by simp
  then have "(of_char (char_of (48 + L mod 10 :: nat)) :: nat) = 48 + L mod 10"
    by (simp only: of_char_of)
  then have "int (of_char (char_of (48 + L mod 10 :: nat))) = int (48 + L mod 10)"
    by (rule arg_cong)
  then show ?thesis
    by (simp only: of_nat_of_char of_nat_add of_nat_numeral)
qed

lemma digit_char: "isdigit (char_of (48 + L mod 10 :: nat))"
  unfolding isdigit_def digit_char_val by simp

lemma decimal_digits_isdigit: "\<forall>c\<in>set (decimal_digits n L). isdigit c"
  by (induction n arbitrary: L) (auto simp: digit_char)

lemma atoi_digits_decimal: "atoi_digits 0 (decimal_digits n L) = int (L mod 10 ^ n)"
proof (induction n arbitrary: L)
  case 0
  then show ?case by simp
next
  case (Suc n)
  have "atoi_digits 0 (decimal_digits (Suc n) L)
          = atoi_digits 0 (decimal_digits n (L div 10)) * 10 + int (L mod 10)"
    by (simp add: atoi_digits_snoc decimal_digits_isdigit digit_char digit_char_val)
  also have "\<dots> = int ((L div 10) mod 10 ^ n) * 10 + int (L mod 10)"
    by (simp add: Suc.IH)
  also have "\<dots> = int (L mod 10 ^ Suc n)"
    by (simp add: mod_mult2_eq)
  finally show ?case .
qed

lemma atoi_decimal_digits: "L < 10 ^ n \<Longrightarrow> atoi (decimal_digits n L) = int L"
  by (simp add: atoi_all_digits decimal_digits_isdigit atoi_digits_decimal)

subsection \<open>The 32-bit length\<close>

lemma getLength_uint:
  assumes "0 \<le> L" "L < 2000000000"
  shows "uint (word_of_int L :: 32 word) = L"
proof -
  have "L < 2 ^ 32" using assms(2) by simp
  with assms(1) have "take_bit 32 L = L" by (rule take_bit_int_eq_self)
  then show ?thesis by (simp add: uint_word_of_int_eq)
qed

lemma getLength_sint:
  assumes "0 \<le> L" "L < 2000000000"
  shows "sint (word_of_int L :: 32 word) = L"
proof -
  have "- (2 ^ 31) \<le> L" "L < 2 ^ 31" using assms by simp_all
  then have "signed_take_bit 31 L = L" by (rule signed_take_bit_int_eq_self)
  then show ?thesis by (simp add: signed_of_int)
qed

lemma getLength_unat:
  assumes "0 \<le> L" "L < 2000000000"
  shows "unat (word_of_int L :: 32 word) = nat L"
  by (simp only: unat_eq_nat_uint getLength_uint [OF assms])

lemma getLength_twice:
  "(word_of_int L :: 32 word) * 2 = word_of_int (2 * L)"
  by simp

lemma unat_min: "unat (min a b :: 32 word) = min (unat a) (unat b)"
  by (simp add: min_def word_le_nat_alt)

subsection \<open>The four header shapes\<close>

lemma ReadRawData_Some:
  "n \<le> length (rx s) \<Longrightarrow> ReadRawData n s = Some (take n (rx s), s\<lparr>rx := drop n (rx s)\<rparr>)"
  by (simp add: ReadRawData_def)

lemma ReadRawData_append:
  "length b = n \<Longrightarrow> ReadRawData n (s\<lparr>rx := b @ r\<rparr>) = Some (b, s\<lparr>rx := r\<rparr>)"
  by (simp add: ReadRawData_def)

lemma read_payload_digits:
  assumes d: "\<forall>c\<in>set d. isdigit c" "length d = 9"
    and q: "q \<noteq> []"
    and n: "n = min ((if w then 2 else 1) * nat (atoi d)) (unat maxsize)" "n \<le> length (rx s)"
  shows "read_payload maxsize data w (d @ q) s =
           Some ((if w then 2 else 1) * atoi d, take n (rx s) @ drop n data,
                 s\<lparr>rx := drop n (rx s)\<rparr>)"
proof -
  from q obtain x q' where q': "q = x # q'" by (cases q) auto
  have upd: "(d @ q)[9 := NUL] = d @ NUL # q'"
    using d(2) by (simp add: q' list_update_append)
  from d have dne: "d \<noteq> []" by auto
  have a: "atoi ((d @ q)[9 := NUL]) = atoi d"
    unfolding upd using d(1) dne by (rule atoi_digits_then_NUL)
  note L = atoi_nine_digits [OF d]
  have L1: "0 \<le> atoi d" "atoi d < 2000000000" using L by simp_all
  have L2: "0 \<le> 2 * atoi d" "2 * atoi d < 2000000000" using L by simp_all
  have u1: "unat (word_of_int (atoi d) :: 32 word) = nat (atoi d)"
    by (rule getLength_unat [OF L1])
  have u2: "unat ((word_of_int (atoi d) :: 32 word) * 2) = 2 * nat (atoi d)"
    unfolding getLength_twice using getLength_unat [OF L2] L(1) by simp
  have s1: "sint (word_of_int (atoi d) :: 32 word) = atoi d"
    by (rule getLength_sint [OF L1])
  have s2: "sint ((word_of_int (atoi d) :: 32 word) * 2) = 2 * atoi d"
    unfolding getLength_twice by (rule getLength_sint [OF L2])
  show ?thesis
  proof (cases w)
    case True
    with n have len: "unat (min ((word_of_int (atoi d) :: 32 word) * 2) maxsize) = n"
      by (simp add: unat_min u2)
    show ?thesis
      unfolding read_payload_def Let_def a
      using True n(2) by (simp add: len ReadRawData_Some s2 store_bytes_def)
  next
    case False
    with n have len: "unat (min (word_of_int (atoi d) :: 32 word) maxsize) = n"
      by (simp add: unat_min u1)
    show ?thesis
      unfolding read_payload_def Let_def a
      using False n(2) by (simp add: len ReadRawData_Some s1 store_bytes_def)
  qed
qed

lemma store_bytes_0: "store_bytes 0 b buf = b @ drop (length b) buf"
  by (simp add: store_bytes_def)

lemma NUL_not_in_tags:
  "NUL \<notin> set ''DESC,#9''" "NUL \<notin> set ''DAT2,#9''" "NUL \<notin> set '':WF D''" "NUL \<notin> set ''#9''"
  by (simp_all add: NUL_def)

lemma block_tagged:
  assumes tag: "tag = ''DESC,#9'' \<or> tag = ''DAT2,#9''"
    and d: "\<forall>c\<in>set d. isdigit c" "length d = 9"
    and p: "length pss = 17"
    and n: "n = min ((if w then 2 else 1) * nat (atoi d)) (unat maxsize)" "n \<le> length rest"
  shows "ReadWaveformBlock maxsize data w pss (s\<lparr>rx := tag @ d @ rest\<rparr>) =
           Some ((if w then 2 else 1) * atoi d, take n rest @ drop n data, s\<lparr>rx := drop n rest\<rparr>)"
proof -
  from tag have lt: "length tag = 7" by auto
  have r7: "ReadRawData 7 (s\<lparr>rx := tag @ d @ rest\<rparr>) = Some (tag, s\<lparr>rx := d @ rest\<rparr>)"
    by (simp add: ReadRawData_def lt)
  define p1 where "p1 = store_bytes 0 tag pss"
  have p1: "p1 = tag @ drop 7 pss" by (simp add: p1_def store_bytes_0 lt)
  have lp1: "length p1 = 17" using p lt by (simp add: p1)
  have t7: "take 7 p1 = tag" using lt by (simp add: p1)
  have c1: "strncmp_eq p1 ''DESC,#9'' 7 = (take 7 p1 = ''DESC,#9'')"
    by (rule strncmp_eq_take) (simp_all add: NUL_def lp1)
  have c2: "strncmp_eq p1 ''DAT2,#9'' 7 = (take 7 p1 = ''DAT2,#9'')"
    by (rule strncmp_eq_take) (simp_all add: NUL_def lp1)
  have c: "strncmp_eq p1 ''DESC,#9'' 7 \<or> strncmp_eq p1 ''DAT2,#9'' 7"
    unfolding c1 c2 t7 using tag by simp
  have r9: "ReadRawData 9 (s\<lparr>rx := d @ rest\<rparr>) = Some (d, s\<lparr>rx := rest\<rparr>)"
    by (simp add: ReadRawData_def d(2))
  have p2: "store_bytes 0 d p1 = d @ drop 9 p1" by (simp add: store_bytes_0 d(2))
  have q: "drop 9 p1 \<noteq> []" using lp1 by simp
  have n': "n \<le> length (rx (s\<lparr>rx := rest\<rparr>))" using n(2) by simp
  have "read_payload maxsize data w (d @ drop 9 p1) (s\<lparr>rx := rest\<rparr>) =
          Some ((if w then 2 else 1) * atoi d, take n rest @ drop n data, s\<lparr>rx := drop n rest\<rparr>)"
    using read_payload_digits [OF d q n(1) n'] by simp
  then show ?thesis
    unfolding ReadWaveformBlock_def r7 using c by (simp add: p1_def [symmetric] r9 p2)
qed

lemma block_forced:
  assumes junk: "length junk = 6"
    and d: "\<forall>c\<in>set d. isdigit c" "length d = 9"
    and p: "length pss = 17"
    and n: "n = min ((if w then 2 else 1) * nat (atoi d)) (unat maxsize)" "n \<le> length rest"
  shows "ReadWaveformBlock maxsize data w pss (s\<lparr>rx := a # b # '':WF D'' @ junk @ d @ rest\<rparr>) =
           Some ((if w then 2 else 1) * atoi d, take n rest @ drop n data, s\<lparr>rx := drop n rest\<rparr>)"
proof -
  define tag where "tag = a # b # '':WF D''"
  have lt: "length tag = 7" by (simp add: tag_def)
  have rx0: "a # b # '':WF D'' @ junk @ d @ rest = tag @ junk @ d @ rest" by (simp add: tag_def)
  have r7: "ReadRawData 7 (s\<lparr>rx := tag @ junk @ d @ rest\<rparr>) = Some (tag, s\<lparr>rx := junk @ d @ rest\<rparr>)"
    by (simp add: ReadRawData_def lt)
  define p1 where "p1 = store_bytes 0 tag pss"
  have p1: "p1 = tag @ drop 7 pss" by (simp add: p1_def store_bytes_0 lt)
  have lp1: "length p1 = 17" using p lt by (simp add: p1)
  have t7: "take 7 p1 = tag" using lt by (simp add: p1)
  have t5: "take 5 (drop 2 p1) = '':WF D''" by (simp add: p1 tag_def)
  have c1: "strncmp_eq p1 ''DESC,#9'' 7 = (take 7 p1 = ''DESC,#9'')"
    by (rule strncmp_eq_take) (simp_all add: NUL_def lp1)
  have c2: "strncmp_eq p1 ''DAT2,#9'' 7 = (take 7 p1 = ''DAT2,#9'')"
    by (rule strncmp_eq_take) (simp_all add: NUL_def lp1)
  have c3: "strncmp_eq (drop 2 p1) '':WF D'' 5 = (take 5 (drop 2 p1) = '':WF D'')"
    by (rule strncmp_eq_take) (simp_all add: NUL_def lp1)
  have c: "\<not> (strncmp_eq p1 ''DESC,#9'' 7 \<or> strncmp_eq p1 ''DAT2,#9'' 7)"
    "strncmp_eq (drop 2 p1) '':WF D'' 5"
    unfolding c1 c2 c3 t7 t5 by (simp_all add: tag_def)
  have r6: "ReadRawData 6 (s\<lparr>rx := junk @ d @ rest\<rparr>) = Some (junk, s\<lparr>rx := d @ rest\<rparr>)"
    by (simp add: ReadRawData_def junk)
  have r9: "ReadRawData 9 (s\<lparr>rx := d @ rest\<rparr>) = Some (d, s\<lparr>rx := rest\<rparr>)"
    by (simp add: ReadRawData_def d(2))
  define p2 where "p2 = store_bytes 0 junk p1"
  have lp2: "length p2 = 17" using lp1 junk by (simp add: p2_def store_bytes_0)
  have p3: "store_bytes 0 d p2 = d @ drop 9 p2" by (simp add: store_bytes_0 d(2))
  have q: "drop 9 p2 \<noteq> []" using lp2 by simp
  have n': "n \<le> length (rx (s\<lparr>rx := rest\<rparr>))" using n(2) by simp
  have "read_payload maxsize data w (d @ drop 9 p2) (s\<lparr>rx := rest\<rparr>) =
          Some ((if w then 2 else 1) * atoi d, take n rest @ drop n data, s\<lparr>rx := drop n rest\<rparr>)"
    using read_payload_digits [OF d q n(1) n'] by simp
  then show ?thesis
    unfolding ReadWaveformBlock_def rx0 r7 using c
    by (simp add: p1_def [symmetric] r6 r9 p2_def [symmetric] p3)
qed

lemma digits_not_tag: "\<forall>c\<in>set d. isdigit c \<Longrightarrow> 5 \<le> length d \<Longrightarrow> take 5 d \<noteq> '':WF D''"
proof
  assume a: "\<forall>c\<in>set d. isdigit c" "5 \<le> length d" "take 5 d = '':WF D''"
  from a(2) obtain x xs where d: "d = x # xs" by (cases d) auto
  with a(3) have "x = CHR '':''" by simp
  with a(1) d have "isdigit CHR '':''" by simp
  then show False by (simp add: isdigit_def)
qed

lemma block_bare:
  assumes d: "\<forall>c\<in>set d. isdigit c" "length d = 9"
    and p: "length pss = 17"
    and n: "n = min ((if w then 2 else 1) * nat (atoi d)) (unat maxsize)" "n \<le> length rest"
  shows "ReadWaveformBlock maxsize data w pss (s\<lparr>rx := ''#9'' @ d @ rest\<rparr>) =
           Some ((if w then 2 else 1) * atoi d, take n rest @ drop n data, s\<lparr>rx := drop n rest\<rparr>)"
proof -
  define d1 where "d1 = take 5 d"
  define d2 where "d2 = drop 5 d"
  have dd: "d = d1 @ d2" and l1: "length d1 = 5" and l2: "length d2 = 4"
    using d(2) by (simp_all add: d1_def d2_def)
  define tag where "tag = ''#9'' @ d1"
  have lt: "length tag = 7" by (simp add: tag_def l1)
  have rx0: "''#9'' @ d @ rest = tag @ d2 @ rest" by (simp add: tag_def dd)
  have r7: "ReadRawData 7 (s\<lparr>rx := tag @ d2 @ rest\<rparr>) = Some (tag, s\<lparr>rx := d2 @ rest\<rparr>)"
    by (simp add: ReadRawData_def lt)
  define p1 where "p1 = store_bytes 0 tag pss"
  have p1: "p1 = tag @ drop 7 pss" by (simp add: p1_def store_bytes_0 lt)
  have lp1: "length p1 = 17" using p lt by (simp add: p1)
  have t7: "take 7 p1 = tag" using lt by (simp add: p1)
  have t5: "take 5 (drop 2 p1) = d1" by (simp add: p1 tag_def l1)
  have t2: "take 2 p1 = ''#9''" by (simp add: p1 tag_def)
  have c1: "strncmp_eq p1 ''DESC,#9'' 7 = (take 7 p1 = ''DESC,#9'')"
    by (rule strncmp_eq_take) (simp_all add: NUL_def lp1)
  have c2: "strncmp_eq p1 ''DAT2,#9'' 7 = (take 7 p1 = ''DAT2,#9'')"
    by (rule strncmp_eq_take) (simp_all add: NUL_def lp1)
  have c3: "strncmp_eq (drop 2 p1) '':WF D'' 5 = (take 5 (drop 2 p1) = '':WF D'')"
    by (rule strncmp_eq_take) (simp_all add: NUL_def lp1)
  have c4: "strncmp_eq p1 ''#9'' 2 = (take 2 p1 = ''#9'')"
    by (rule strncmp_eq_take) (simp_all add: NUL_def lp1)
  have nt: "d1 \<noteq> '':WF D''"
    unfolding d1_def using d by (intro digits_not_tag) simp_all
  have c: "\<not> (strncmp_eq p1 ''DESC,#9'' 7 \<or> strncmp_eq p1 ''DAT2,#9'' 7)"
    "\<not> strncmp_eq (drop 2 p1) '':WF D'' 5" "strncmp_eq p1 ''#9'' 2"
    unfolding c1 c2 c3 c4 t7 t5 t2 using nt by (simp_all add: tag_def)
  define p2 where "p2 = store_bytes 0 (take 5 (drop 2 p1)) p1"
  have p2: "p2 = d1 @ drop 5 p1" by (simp add: p2_def t5 store_bytes_0 l1)
  have lp2: "length p2 = 17" using lp1 l1 by (simp add: p2)
  have r4: "ReadRawData 4 (s\<lparr>rx := d2 @ rest\<rparr>) = Some (d2, s\<lparr>rx := rest\<rparr>)"
    by (simp add: ReadRawData_def l2)
  have p3: "store_bytes 5 d2 p2 = d @ drop 9 p2"
    by (simp add: store_bytes_def p2 l1 l2 dd)
  have q: "drop 9 p2 \<noteq> []" using lp2 by simp
  have n': "n \<le> length (rx (s\<lparr>rx := rest\<rparr>))" using n(2) by simp
  have "read_payload maxsize data w (d @ drop 9 p2) (s\<lparr>rx := rest\<rparr>) =
          Some ((if w then 2 else 1) * atoi d, take n rest @ drop n data, s\<lparr>rx := drop n rest\<rparr>)"
    using read_payload_digits [OF d q n(1) n'] by simp
  then show ?thesis
    unfolding ReadWaveformBlock_def rx0 r7 using c
    by (simp add: p1_def [symmetric] p2_def [symmetric] r4 p3)
qed

lemma block_invalid:
  assumes h: "length h = 7" "h \<noteq> ''DESC,#9''" "h \<noteq> ''DAT2,#9''"
      "take 5 (drop 2 h) \<noteq> '':WF D''" "take 2 h \<noteq> ''#9''"
    and p: "length pss = 17"
  shows "ReadWaveformBlock maxsize data w pss (s\<lparr>rx := h @ rest\<rparr>) =
           Some (0, data, LogError (''ReadWaveformBlock: invalid length format'' @ [CHR 0x0A]) (s\<lparr>rx := rest\<rparr>))"
proof -
  have r7: "ReadRawData 7 (s\<lparr>rx := h @ rest\<rparr>) = Some (h, s\<lparr>rx := rest\<rparr>)"
    by (simp add: ReadRawData_def h(1))
  define p1 where "p1 = store_bytes 0 h pss"
  have p1: "p1 = h @ drop 7 pss" by (simp add: p1_def store_bytes_0 h(1))
  have lp1: "length p1 = 17" using p h(1) by (simp add: p1)
  have t7: "take 7 p1 = h" using h(1) by (simp add: p1)
  have t5: "take 5 (drop 2 p1) = take 5 (drop 2 h)" using h(1) by (simp add: p1)
  have t2: "take 2 p1 = take 2 h" using h(1) by (simp add: p1)
  have c1: "strncmp_eq p1 ''DESC,#9'' 7 = (take 7 p1 = ''DESC,#9'')"
    by (rule strncmp_eq_take) (simp_all add: NUL_def lp1)
  have c2: "strncmp_eq p1 ''DAT2,#9'' 7 = (take 7 p1 = ''DAT2,#9'')"
    by (rule strncmp_eq_take) (simp_all add: NUL_def lp1)
  have c3: "strncmp_eq (drop 2 p1) '':WF D'' 5 = (take 5 (drop 2 p1) = '':WF D'')"
    by (rule strncmp_eq_take) (simp_all add: NUL_def lp1)
  have c4: "strncmp_eq p1 ''#9'' 2 = (take 2 p1 = ''#9'')"
    by (rule strncmp_eq_take) (simp_all add: NUL_def lp1)
  have c: "\<not> (strncmp_eq p1 ''DESC,#9'' 7 \<or> strncmp_eq p1 ''DAT2,#9'' 7)"
    "\<not> strncmp_eq (drop 2 p1) '':WF D'' 5" "\<not> strncmp_eq p1 ''#9'' 2"
    unfolding c1 c2 c3 c4 t7 t5 t2 using h by simp_all
  show ?thesis
    unfolding ReadWaveformBlock_def r7 using c
    by (simp add: p1_def [symmetric])
qed

text \<open>
  C2. A block whose header (any of the four shapes) declares the length \<open>L\<close> as nine
  decimal digits: \<open>ReadWaveformBlock\<close> takes exactly \<open>min (L * (2 if w else 1)) maxsize\<close>
  payload bytes off the wire and writes them to the start of the destination buffer, whose
  remainder is untouched; it returns \<open>L\<close>, or \<open>2 * L\<close> under the size workaround,
  whatever \<open>maxsize\<close> is.
\<close>

theorem ReadWaveformBlock_clamps_read_not_result:
  assumes "L < 1000000000"
    and "hdr \<in> {''DESC,#9'', ''DAT2,#9'', a # b # '':WF D'' @ junk, ''#9''}"
    and "length junk = 6"
    and "length packetSizeSequence = 17"
    and "n = min (L * (if w then 2 else 1)) (unat maxsize)"
    and "n \<le> length wire"
  shows "ReadWaveformBlock maxsize data w packetSizeSequence
           (s\<lparr>rx := hdr @ decimal_digits 9 L @ wire\<rparr>)
         = Some (int (L * (if w then 2 else 1)), take n wire @ drop n data,
                 s\<lparr>rx := drop n wire\<rparr>)"
proof -
  define d where "d = decimal_digits 9 L"
  have d: "\<forall>c\<in>set d. isdigit c" "length d = 9"
    by (simp_all add: d_def decimal_digits_isdigit)
  have v: "atoi d = int L"
    unfolding d_def using assms(1) by (intro atoi_decimal_digits) simp
  have n: "n = min ((if w then 2 else 1) * nat (atoi d)) (unat maxsize)"
    using assms(5) by (simp add: v mult.commute)
  have r: "(if w then 2 else 1) * atoi d = int (L * (if w then 2 else 1))"
    by (simp add: v)
  from assms(2) consider "hdr = ''DESC,#9'' \<or> hdr = ''DAT2,#9''"
    | "hdr = a # b # '':WF D'' @ junk" | "hdr = ''#9''" by auto
  then have "ReadWaveformBlock maxsize data w packetSizeSequence (s\<lparr>rx := hdr @ d @ wire\<rparr>)
         = Some ((if w then 2 else 1) * atoi d, take n wire @ drop n data,
                 s\<lparr>rx := drop n wire\<rparr>)"
  proof cases
    case 1
    from block_tagged [OF 1 d assms(4) n assms(6)] show ?thesis .
  next
    case 2
    from block_forced [OF assms(3) d assms(4) n assms(6)] show ?thesis
      by (simp add: 2)
  next
    case 3
    from block_bare [OF d assms(4) n assms(6)] show ?thesis
      by (simp add: 3)
  qed
  then show ?thesis unfolding r unfolding d_def .
qed

lemma decimal_digits_numeral:
  "decimal_digits (numeral k) L
     = decimal_digits (pred_numeral k) (L div 10) @ [char_of (48 + L mod 10)]"
  unfolding numeral_eq_Suc [of k] by simp

lemma char_of_digit:
  "char_of (48::nat) = CHR ''0''" "char_of (53::nat) = CHR ''5''"
  using char_of_char [of "CHR ''0''", where ?'a = nat] char_of_char [of "CHR ''5''", where ?'a = nat]
  by simp_all

lemma decimal_5000000: "decimal_digits 9 5000000 = ''005000000''"
  by (simp add: decimal_digits_numeral char_of_digit)

theorem ReadWaveformBlock_clamps_read_not_result_witness:
  "ReadWaveformBlock 1000000 (replicate 1000000 CHR ''-'') False (replicate 17 CHR ''?'')
     ((idle_driver 4)\<lparr>rx := ''DESC,#9'' @ ''005000000'' @ replicate 1000000 CHR ''x'' @ ''yz''\<rparr>)
     = Some (5000000, replicate 1000000 CHR ''x'', (idle_driver 4)\<lparr>rx := ''yz''\<rparr>)
   \<and> ReadWaveformBlock 1000000 (replicate 1000000 CHR ''-'') True (replicate 17 CHR ''?'')
     ((idle_driver 4)\<lparr>rx := ''#9'' @ ''005000000'' @ replicate 1000000 CHR ''x'' @ ''yz''\<rparr>)
     = Some (10000000, replicate 1000000 CHR ''x'', (idle_driver 4)\<lparr>rx := ''yz''\<rparr>)"
proof -
  have 1: "ReadWaveformBlock 1000000 (replicate 1000000 CHR ''-'') False (replicate 17 CHR ''?'')
     ((idle_driver 4)\<lparr>rx := ''DESC,#9'' @ decimal_digits 9 5000000 @ replicate 1000000 CHR ''x'' @ ''yz''\<rparr>)
     = Some (int (5000000 * (if False then 2 else 1)),
          take 1000000 (replicate 1000000 CHR ''x'' @ ''yz'') @ drop 1000000 (replicate 1000000 CHR ''-''),
          (idle_driver 4)\<lparr>rx := drop 1000000 (replicate 1000000 CHR ''x'' @ ''yz'')\<rparr>)"
    by (rule ReadWaveformBlock_clamps_read_not_result
          [where a = "CHR ''C''" and b = "CHR ''1''" and junk = "''AT2,#9''"]) simp_all
  have 2: "ReadWaveformBlock 1000000 (replicate 1000000 CHR ''-'') True (replicate 17 CHR ''?'')
     ((idle_driver 4)\<lparr>rx := ''#9'' @ decimal_digits 9 5000000 @ replicate 1000000 CHR ''x'' @ ''yz''\<rparr>)
     = Some (int (5000000 * (if True then 2 else 1)),
          take 1000000 (replicate 1000000 CHR ''x'' @ ''yz'') @ drop 1000000 (replicate 1000000 CHR ''-''),
          (idle_driver 4)\<lparr>rx := drop 1000000 (replicate 1000000 CHR ''x'' @ ''yz'')\<rparr>)"
    by (rule ReadWaveformBlock_clamps_read_not_result
          [where a = "CHR ''C''" and b = "CHR ''1''" and junk = "''AT2,#9''"]) simp_all
  from 1 2 show ?thesis unfolding decimal_5000000 by simp
qed

text \<open>
  C3. For any nine ASCII digits \<open>d\<close>, the four header shapes (\<open>DESC,#9\<close>,
  \<open>DAT2,#9\<close>, any two bytes followed by \<open>:WF D\<close> and six more bytes, and a bare
  \<open>#9\<close>) give the same result: the same declared length \<open>atoi d\<close> returned, the same
  payload read. A 7-byte prefix of none of the four shapes logs an error and returns 0,
  with the destination untouched and exactly those 7 bytes taken off the wire.
\<close>

theorem block_header_shapes_agree:
  "((\<forall>c\<in>set d. isdigit c) \<and> length d = 9 \<and> length junk = 6
      \<and> length packetSizeSequence = 17
      \<and> n = min ((if w then 2 else 1) * nat (atoi d)) (unat maxsize) \<and> n \<le> length wire
    \<longrightarrow>
      ReadWaveformBlock maxsize data w packetSizeSequence (s\<lparr>rx := ''DESC,#9'' @ d @ wire\<rparr>)
        = Some ((if w then 2 else 1) * atoi d, take n wire @ drop n data, s\<lparr>rx := drop n wire\<rparr>)
      \<and> ReadWaveformBlock maxsize data w packetSizeSequence (s\<lparr>rx := ''DAT2,#9'' @ d @ wire\<rparr>)
        = Some ((if w then 2 else 1) * atoi d, take n wire @ drop n data, s\<lparr>rx := drop n wire\<rparr>)
      \<and> ReadWaveformBlock maxsize data w packetSizeSequence
            (s\<lparr>rx := a # b # '':WF D'' @ junk @ d @ wire\<rparr>)
        = Some ((if w then 2 else 1) * atoi d, take n wire @ drop n data, s\<lparr>rx := drop n wire\<rparr>)
      \<and> ReadWaveformBlock maxsize data w packetSizeSequence (s\<lparr>rx := ''#9'' @ d @ wire\<rparr>)
        = Some ((if w then 2 else 1) * atoi d, take n wire @ drop n data, s\<lparr>rx := drop n wire\<rparr>))
   \<and> (length h = 7 \<and> h \<noteq> ''DESC,#9'' \<and> h \<noteq> ''DAT2,#9'' \<and> take 5 (drop 2 h) \<noteq> '':WF D''
      \<and> take 2 h \<noteq> ''#9'' \<and> length packetSizeSequence = 17
    \<longrightarrow>
      ReadWaveformBlock maxsize data w packetSizeSequence (s\<lparr>rx := h @ wire\<rparr>)
        = Some (0, data,
                s\<lparr>rx := wire,
                  errors := errors s @ [''ReadWaveformBlock: invalid length format'' @ [CHR 0x0A]]\<rparr>))"
proof (intro conjI impI)
  assume a: "(\<forall>c\<in>set d. isdigit c) \<and> length d = 9 \<and> length junk = 6
      \<and> length packetSizeSequence = 17
      \<and> n = min ((if w then 2 else 1) * nat (atoi d)) (unat maxsize) \<and> n \<le> length wire"
  then have d: "\<forall>c\<in>set d. isdigit c" "length d = 9" and j: "length junk = 6"
    and p: "length packetSizeSequence = 17"
    and n: "n = min ((if w then 2 else 1) * nat (atoi d)) (unat maxsize)" "n \<le> length wire"
    by simp_all
  show "ReadWaveformBlock maxsize data w packetSizeSequence (s\<lparr>rx := ''DESC,#9'' @ d @ wire\<rparr>)
        = Some ((if w then 2 else 1) * atoi d, take n wire @ drop n data, s\<lparr>rx := drop n wire\<rparr>)"
    by (rule block_tagged [OF _ d p n]) simp
  show "ReadWaveformBlock maxsize data w packetSizeSequence (s\<lparr>rx := ''DAT2,#9'' @ d @ wire\<rparr>)
        = Some ((if w then 2 else 1) * atoi d, take n wire @ drop n data, s\<lparr>rx := drop n wire\<rparr>)"
    by (rule block_tagged [OF _ d p n]) simp
  show "ReadWaveformBlock maxsize data w packetSizeSequence
            (s\<lparr>rx := a # b # '':WF D'' @ junk @ d @ wire\<rparr>)
        = Some ((if w then 2 else 1) * atoi d, take n wire @ drop n data, s\<lparr>rx := drop n wire\<rparr>)"
    by (rule block_forced [OF j d p n])
  show "ReadWaveformBlock maxsize data w packetSizeSequence (s\<lparr>rx := ''#9'' @ d @ wire\<rparr>)
        = Some ((if w then 2 else 1) * atoi d, take n wire @ drop n data, s\<lparr>rx := drop n wire\<rparr>)"
    by (rule block_bare [OF d p n])
next
  assume "length h = 7 \<and> h \<noteq> ''DESC,#9'' \<and> h \<noteq> ''DAT2,#9'' \<and> take 5 (drop 2 h) \<noteq> '':WF D''
      \<and> take 2 h \<noteq> ''#9'' \<and> length packetSizeSequence = 17"
  then have h: "length h = 7" "h \<noteq> ''DESC,#9''" "h \<noteq> ''DAT2,#9''"
      "take 5 (drop 2 h) \<noteq> '':WF D''" "take 2 h \<noteq> ''#9''"
    and p: "length packetSizeSequence = 17"
    by blast+
  show "ReadWaveformBlock maxsize data w packetSizeSequence (s\<lparr>rx := h @ wire\<rparr>)
        = Some (0, data,
                s\<lparr>rx := wire,
                  errors := errors s @ [''ReadWaveformBlock: invalid length format'' @ [CHR 0x0A]]\<rparr>)"
    using block_invalid [OF h p] by (simp add: LogError_def)
qed

theorem block_header_shapes_agree_witness:
  "fst (the (ReadWaveformBlock 4 ''....'' False ''?????????????????''
         ((idle_driver 4)\<lparr>rx := ''DESC,#9000000012abcdef''\<rparr>))) = 12
   \<and> fst (the (ReadWaveformBlock 4 ''....'' False ''?????????????????''
         ((idle_driver 4)\<lparr>rx := ''DAT2,#9000000012abcdef''\<rparr>))) = 12
   \<and> fst (the (ReadWaveformBlock 4 ''....'' False ''?????????????????''
         ((idle_driver 4)\<lparr>rx := ''C1:WF DAT2,#9000000012abcdef''\<rparr>))) = 12
   \<and> ReadWaveformBlock 4 ''....'' False ''?????????????????''
         ((idle_driver 4)\<lparr>rx := ''#9000000012abcdef''\<rparr>)
       = Some (12, ''abcd'', (idle_driver 4)\<lparr>rx := ''ef''\<rparr>)
   \<and> ReadWaveformBlock 4 ''....'' False ''?????????????????''
         ((idle_driver 4)\<lparr>rx := ''DATA,#9abcdef''\<rparr>)
       = Some (0, ''....'',
           (idle_driver 4)\<lparr>rx := ''abcdef'',
              errors := [''ReadWaveformBlock: invalid length format'' @ [CHR 0x0A]]\<rparr>)"
proof -
  have v: "atoi ''000000012'' = 12"
    by (simp add: atoi_def isspace_def isdigit_def)
  have h1: "(\<forall>c\<in>set ''000000012''. isdigit c) \<and> length ''000000012'' = 9 \<and> length ''AT2,#9'' = 6
      \<and> length ''?????????????????'' = 17
      \<and> 4 = min ((if False then 2 else 1) * nat (atoi ''000000012'')) (unat (4 :: 32 word))
      \<and> 4 \<le> length ''abcdef''"
    by (simp add: v) (simp add: isdigit_def)
  have h2: "length ''DATA,#9'' = 7 \<and> ''DATA,#9'' \<noteq> ''DESC,#9'' \<and> ''DATA,#9'' \<noteq> ''DAT2,#9''
      \<and> take 5 (drop 2 ''DATA,#9'') \<noteq> '':WF D'' \<and> take 2 ''DATA,#9'' \<noteq> ''#9''
      \<and> length ''?????????????????'' = 17"
    by simp
  note t = block_header_shapes_agree
    [where d = "''000000012''" and junk = "''AT2,#9''" and a = "CHR ''C''" and b = "CHR ''1''"
       and packetSizeSequence = "''?????????????????''" and n = 4 and w = False and maxsize = 4
       and wire = "''abcdef''" and data = "''....''" and s = "idle_driver 4"
       and h = "''DATA,#9''"]
  from t h1 have 1:
    "ReadWaveformBlock 4 ''....'' False ''?????????????????''
        ((idle_driver 4)\<lparr>rx := ''DESC,#9'' @ ''000000012'' @ ''abcdef''\<rparr>)
      = Some ((if False then 2 else 1) * atoi ''000000012'', take 4 ''abcdef'' @ drop 4 ''....'',
              (idle_driver 4)\<lparr>rx := drop 4 ''abcdef''\<rparr>)"
    "ReadWaveformBlock 4 ''....'' False ''?????????????????''
        ((idle_driver 4)\<lparr>rx := ''DAT2,#9'' @ ''000000012'' @ ''abcdef''\<rparr>)
      = Some ((if False then 2 else 1) * atoi ''000000012'', take 4 ''abcdef'' @ drop 4 ''....'',
              (idle_driver 4)\<lparr>rx := drop 4 ''abcdef''\<rparr>)"
    "ReadWaveformBlock 4 ''....'' False ''?????????????????''
        ((idle_driver 4)\<lparr>rx := CHR ''C'' # CHR ''1'' # '':WF D'' @ ''AT2,#9'' @ ''000000012'' @ ''abcdef''\<rparr>)
      = Some ((if False then 2 else 1) * atoi ''000000012'', take 4 ''abcdef'' @ drop 4 ''....'',
              (idle_driver 4)\<lparr>rx := drop 4 ''abcdef''\<rparr>)"
    "ReadWaveformBlock 4 ''....'' False ''?????????????????''
        ((idle_driver 4)\<lparr>rx := ''#9'' @ ''000000012'' @ ''abcdef''\<rparr>)
      = Some ((if False then 2 else 1) * atoi ''000000012'', take 4 ''abcdef'' @ drop 4 ''....'',
              (idle_driver 4)\<lparr>rx := drop 4 ''abcdef''\<rparr>)"
    by blast+
  from t h2 have 2:
    "ReadWaveformBlock 4 ''....'' False ''?????????????????''
        ((idle_driver 4)\<lparr>rx := ''DATA,#9'' @ ''abcdef''\<rparr>)
      = Some (0, ''....'',
              (idle_driver 4)\<lparr>rx := ''abcdef'',
                 errors := errors (idle_driver 4) @ [''ReadWaveformBlock: invalid length format'' @ [CHR 0x0A]]\<rparr>)"
    by blast
  have e: "errors (idle_driver 4) = []" by (simp add: idle_driver_def)
  from 1 2 show ?thesis by (simp add: v e)
qed

section \<open>Properties of the digital sample conversion\<close>

subsection \<open>The scalar loop\<close>

lemma fold_store_range:
  "fold (\<lambda>j m. m(a + j := f j)) [0..<n] (m :: nat \<Rightarrow> 'a)
     = (\<lambda>x. if a \<le> x \<and> x < a + n then f (x - a) else m x)"
proof (induction n)
  case 0
  then show ?case by (auto simp: fun_eq_iff)
next
  case (Suc n)
  show ?case
    unfolding upt_Suc_append [OF le0] fold_append o_apply Suc.IH
    by (auto simp: fun_eq_iff)
qed

lemma test_bit: "((drop_bit j (w :: 8 word) AND 1) \<noteq> 0) = bit w j"
  by (simp add: and_one_eq bit_iff_odd_drop_bit odd_iff_mod_2_eq_one)

lemma store_row:
  "fold (\<lambda>j m. m(pout + (8 * i + j) := (drop_bit j (inp (pin + i)) AND 1) \<noteq> 0)) [0..<8] m
     = (\<lambda>x. if pout + 8 * i \<le> x \<and> x < pout + 8 * i + 8 then unpacked inp pin (x - pout) else m x)"
proof -
  have "fold (\<lambda>j m. m(pout + (8 * i + j) := (drop_bit j (inp (pin + i)) AND 1) \<noteq> 0)) [0..<8] m
      = fold (\<lambda>j m. m((pout + 8 * i) + j := bit (inp (pin + i)) j)) [0..<8] m"
    by (simp only: test_bit add.assoc)
  also have "\<dots> = (\<lambda>x. if pout + 8 * i \<le> x \<and> x < pout + 8 * i + 8
                          then bit (inp (pin + i)) (x - (pout + 8 * i)) else m x)"
    by (rule fold_store_range)
  also have "\<dots> = (\<lambda>x. if pout + 8 * i \<le> x \<and> x < pout + 8 * i + 8
                          then unpacked inp pin (x - pout) else m x)"
  proof -
    have key: "bit (inp (pin + i)) (x - (pout + 8 * i)) = unpacked inp pin (x - pout)"
      if "pout + 8 * i \<le> x" "x < pout + 8 * i + 8" for x
    proof -
      from that obtain r where r: "x = pout + 8 * i + r" "r < 8"
        by (metis add_less_cancel_left le_Suc_ex)
      then have "(x - pout) div 8 = i" "(x - pout) mod 8 = r" "x - (pout + 8 * i) = r"
        by simp_all
      then show ?thesis by (simp add: unpacked_def)
    qed
    show ?thesis by (rule ext) (simp add: key cong: if_cong)
  qed
  finally show ?thesis .
qed

lemma store_rows:
  "a \<le> b \<Longrightarrow>
   fold (\<lambda>i. fold (\<lambda>j m. m(pout + (8 * i + j) := (drop_bit j (inp (pin + i)) AND 1) \<noteq> 0))
                 [0..<8])
        [a..<b] m
     = (\<lambda>x. if pout + 8 * a \<le> x \<and> x < pout + 8 * b then unpacked inp pin (x - pout) else m x)"
proof (induction b)
  case 0
  then show ?case by (auto simp: fun_eq_iff)
next
  case (Suc b)
  show ?case
  proof (cases "a = Suc b")
    case True
    then show ?thesis by (auto simp: fun_eq_iff)
  next
    case False
    with Suc.prems have ab: "a \<le> b" by simp
    show ?thesis
      unfolding upt_Suc_append [OF ab] fold_append o_apply Suc.IH [OF ab]
      using ab by (simp add: store_row) (auto simp: fun_eq_iff)
  qed
qed

lemma ConvertDigitalSamplesGeneric_eq:
  "ConvertDigitalSamplesGeneric out pout inp pin count
     = (\<lambda>x. if pout \<le> x \<and> x < pout + 8 * count then unpacked inp pin (x - pout) else out x)"
  unfolding ConvertDigitalSamplesGeneric_def
  using store_rows [of 0 count pout inp pin out] by simp

subsection \<open>The vector loop\<close>

lemma bitmask_lanes:
  "mm256_set1_epi64x 0x8040201008040201
     = [1, 2, 4, 8, 16, 32, 64, 128, 1, 2, 4, 8, 16, 32, 64, 128,
        1, 2, 4, 8, 16, 32, 64, 128, 1, 2, 4, 8, 16, 32, 64, 128]"
  by code_simp

lemma and_bit_mask:
  "((b :: 8 word) AND 1 = 1) = bit b 0"
  "((b :: 8 word) AND 2 = 2) = bit b 1"
  "((b :: 8 word) AND 4 = 4) = bit b 2"
  "((b :: 8 word) AND 8 = 8) = bit b 3"
  "((b :: 8 word) AND 16 = 16) = bit b 4"
  "((b :: 8 word) AND 32 = 32) = bit b 5"
  "((b :: 8 word) AND 64 = 64) = bit b 6"
  "((b :: 8 word) AND 128 = 128) = bit b 7"
proof -
  have g: "((b :: 8 word) AND 2 ^ m = 2 ^ m) = bit b m" if "m < 8" for m
  proof
    assume "b AND 2 ^ m = 2 ^ m"
    then have "bit (b AND 2 ^ m) m = bit ((2 :: 8 word) ^ m) m" by simp
    with that show "bit b m" by (simp add: bit_and_iff bit_exp_iff)
  next
    assume "bit b m"
    then show "b AND 2 ^ m = 2 ^ m"
      by (intro bit_eqI) (auto simp: bit_and_iff bit_exp_iff)
  qed
  show "((b :: 8 word) AND 1 = 1) = bit b 0" using g [of 0] by simp
  show "((b :: 8 word) AND 2 = 2) = bit b 1" using g [of 1] by simp
  show "((b :: 8 word) AND 4 = 4) = bit b 2" using g [of 2] by simp
  show "((b :: 8 word) AND 8 = 8) = bit b 3" using g [of 3] by simp
  show "((b :: 8 word) AND 16 = 16) = bit b 4" using g [of 4] by simp
  show "((b :: 8 word) AND 32 = 32) = bit b 5" using g [of 5] by simp
  show "((b :: 8 word) AND 64 = 64) = bit b 6" using g [of 6] by simp
  show "((b :: 8 word) AND 128 = 128) = bit b 7" using g [of 7] by simp
qed

lemma replicate_8: "replicate 8 x = [x, x, x, x, x, x, x, x]"
  by (simp add: eval_nat_numeral)

lemma replicate_32:
  "replicate 32 x = [x, x, x, x, x, x, x, x, x, x, x, x, x, x, x, x,
                     x, x, x, x, x, x, x, x, x, x, x, x, x, x, x, x]"
  by (simp add: eval_nat_numeral)

lemma upt_8: "[0..<8] = [0, 1, 2, 3, 4, 5, 6, 7]"
  by (simp add: upt_rec)

lemma lane_select:
  "(if (b :: 8 word) AND m = m then 0xFF else 0) AND (1 :: 8 word) = (if b AND m = m then 1 else 0)"
  by simp

lemma avx2_result:
  "mm256_and_si256
     (mm256_cmpeq_epi8
        (mm256_and_si256
           (mm256_set_epi8 (replicate 8 b3 @ replicate 8 b2 @ replicate 8 b1 @ replicate 8 b0))
           (mm256_set1_epi64x 0x8040201008040201))
        (mm256_set1_epi64x 0x8040201008040201))
     (mm256_set1_epi8 0x1)
   = lane_bits b0 @ lane_bits b1 @ lane_bits b2 @ lane_bits b3"
  unfolding bitmask_lanes mm256_and_si256_def mm256_cmpeq_epi8_def mm256_set_epi8_def
    mm256_set1_epi8_def replicate_8 replicate_32 lane_bits_def upt_8
  by (simp add: lane_select and_bit_mask del: bit_0)

lemma lane_bits_length [simp]: "length (lane_bits b) = 8"
  by (simp add: lane_bits_def)

lemma lane_bits_nth: "j < 8 \<Longrightarrow> (lane_bits b ! j \<noteq> 0) = bit b j"
  by (simp add: lane_bits_def)

lemma lanes_nth_qj:
  assumes "q < 4" "j < 8"
  shows "((lane_bits b0 @ lane_bits b1 @ lane_bits b2 @ lane_bits b3) ! (8 * q + j) \<noteq> 0)
           = bit ([b0, b1, b2, b3] ! q) j"
proof -
  from assms(1) consider "q = 0" | "q = 1" | "q = 2" | "q = 3" by linarith
  then show ?thesis
  proof cases
    case 1 then show ?thesis using assms(2) by (simp add: nth_append lane_bits_nth)
  next
    case 2 then show ?thesis using assms(2) by (simp add: nth_append lane_bits_nth)
  next
    case 3 then show ?thesis using assms(2) by (simp add: nth_append lane_bits_nth)
  next
    case 4 then show ?thesis using assms(2) by (simp add: nth_append lane_bits_nth)
  qed
qed

lemma lanes_nth:
  assumes "r < 32"
  shows "((lane_bits b0 @ lane_bits b1 @ lane_bits b2 @ lane_bits b3) ! r \<noteq> 0)
           = bit ([b0, b1, b2, b3] ! (r div 8)) (r mod 8)"
proof -
  have "r div 8 < 4" "r mod 8 < 8" using assms by simp_all
  from lanes_nth_qj [OF this] show ?thesis by simp
qed

lemma avx2_loop_done: "\<not> k < end \<Longrightarrow> avx2_loop k end out pout inp pin = out"
  by (subst avx2_loop.simps) simp

lemma avx2_loop_step:
  "k < end \<Longrightarrow>
   avx2_loop k end out pout inp pin =
   avx2_loop (k + 4) end
     (mm256_storeu_si256 out (pout + (k * 8) mod 2 ^ 32)
        (lane_bits (inp (pin + k)) @ lane_bits (inp (pin + (k + 1)))
         @ lane_bits (inp (pin + (k + 2))) @ lane_bits (inp (pin + (k + 3)))))
     pout inp pin"
  by (subst avx2_loop.simps) (simp only: Let_def avx2_result if_True)

lemma store_lanes:
  "mm256_storeu_si256 out (pout + 8 * k)
        (lane_bits (inp (pin + k)) @ lane_bits (inp (pin + (k + 1)))
         @ lane_bits (inp (pin + (k + 2))) @ lane_bits (inp (pin + (k + 3))))
   = (\<lambda>x. if pout + 8 * k \<le> x \<and> x < pout + 8 * (k + 4) then unpacked inp pin (x - pout) else out x)"
proof -
  let ?v = "lane_bits (inp (pin + k)) @ lane_bits (inp (pin + (k + 1)))
         @ lane_bits (inp (pin + (k + 2))) @ lane_bits (inp (pin + (k + 3)))"
  have key: "(?v ! (x - (pout + 8 * k)) \<noteq> 0) = unpacked inp pin (x - pout)"
    if "pout + 8 * k \<le> x" "x < pout + 8 * k + 32" for x
  proof -
    define r where "r = x - (pout + 8 * k)"
    have r: "r < 32" "x - pout = 8 * k + r" using that by (simp_all add: r_def)
    have q: "r div 8 < 4" using r(1) by simp
    have sel: "[inp (pin + k), inp (pin + (k + 1)), inp (pin + (k + 2)), inp (pin + (k + 3))]
                 ! (r div 8) = inp (pin + (k + r div 8))"
    proof -
      from q consider "r div 8 = 0" | "r div 8 = 1" | "r div 8 = 2" | "r div 8 = 3" by linarith
      then show ?thesis by cases simp_all
    qed
    have "(?v ! r \<noteq> 0) = bit (inp (pin + (k + r div 8))) (r mod 8)"
      unfolding lanes_nth [OF r(1)] sel ..
    also have "\<dots> = unpacked inp pin (x - pout)"
      by (simp add: unpacked_def r(2))
    finally show ?thesis by (simp add: r_def)
  qed
  have "mm256_storeu_si256 out (pout + 8 * k) ?v
      = (\<lambda>x. if pout + 8 * k \<le> x \<and> x < pout + 8 * k + 32
              then ?v ! (x - (pout + 8 * k)) \<noteq> 0 else out x)"
    unfolding mm256_storeu_si256_def by (rule fold_store_range)
  also have "\<dots> = (\<lambda>x. if pout + 8 * k \<le> x \<and> x < pout + 8 * k + 32
              then unpacked inp pin (x - pout) else out x)"
  proof (rule ext)
    fix x
    show "(if pout + 8 * k \<le> x \<and> x < pout + 8 * k + 32
              then ?v ! (x - (pout + 8 * k)) \<noteq> 0 else out x)
        = (if pout + 8 * k \<le> x \<and> x < pout + 8 * k + 32
              then unpacked inp pin (x - pout) else out x)"
    proof (cases "pout + 8 * k \<le> x \<and> x < pout + 8 * k + 32")
      case True
      then have "(?v ! (x - (pout + 8 * k)) \<noteq> 0) = unpacked inp pin (x - pout)"
        by (intro key) simp_all
      with True show ?thesis by (simp only: if_True)
    next
      case False
      then show ?thesis by (simp only: if_False)
    qed
  qed
  finally have f: "mm256_storeu_si256 out (pout + 8 * k) ?v
      = (\<lambda>x. if pout + 8 * k \<le> x \<and> x < pout + 8 * k + 32
              then unpacked inp pin (x - pout) else out x)" .
  have "pout + 8 * k + 32 = pout + 8 * (k + 4)" by simp
  then show ?thesis unfolding f by (simp only:)
qed

lemma avx2_loop_eq:
  assumes "k mod 4 = 0" "end mod 4 = 0" "k \<le> end" "8 * end \<le> 2 ^ 32"
  shows "avx2_loop k end out pout inp pin
     = (\<lambda>x. if pout + 8 * k \<le> x \<and> x < pout + 8 * end then unpacked inp pin (x - pout) else out x)"
  using assms
proof (induction "end - k" arbitrary: k out rule: less_induct)
  case less
  show ?case
  proof (cases "k < end")
    case False
    with less.prems have "k = end" by simp
    then show ?thesis by (auto simp: avx2_loop_done fun_eq_iff)
  next
    case True
    with less.prems have k4: "k + 4 \<le> end" by presburger
    have nowrap: "(k * 8) mod 2 ^ 32 = 8 * k"
      using True less.prems(4) by simp
    have m: "(k + 4) mod 4 = 0" using less.prems(1) by simp
    have d: "end - (k + 4) < end - k" using True by simp
    note ih = less.hyps [OF d m less.prems(2) k4 less.prems(4)]
    show ?thesis
      unfolding avx2_loop_step [OF True] nowrap store_lanes ih
      using k4 by (auto simp: fun_eq_iff)
  qed
qed

lemma ConvertDigitalSamplesAVX2_eq:
  assumes "count < 2 ^ 29 + 4"
  shows "ConvertDigitalSamplesAVX2 out pout inp pin count
     = (\<lambda>x. if pout \<le> x \<and> x < pout + 8 * count then unpacked inp pin (x - pout) else out x)"
proof -
  define e where "e = count - count mod 4"
  have e: "e mod 4 = 0" "e \<le> count" "e \<le> 2 ^ 29"
    using assms by (simp_all add: e_def) presburger+
  then have e32: "e mod 2 ^ 32 = e" "8 * e \<le> 2 ^ 32" by simp_all
  have l: "avx2_loop 0 e out pout inp pin
     = (\<lambda>x. if pout + 8 * 0 \<le> x \<and> x < pout + 8 * e then unpacked inp pin (x - pout) else out x)"
    by (rule avx2_loop_eq) (use e e32 in simp_all)
  show ?thesis
    unfolding ConvertDigitalSamplesAVX2_def Let_def e_def [symmetric] e32 l store_rows [OF e(2)]
    using e(2) by (auto simp: fun_eq_iff)
qed

subsection \<open>The block dispatcher\<close>

lemma ConvertDigitalSamples_small:
  assumes "count \<le> 125000"
  shows "ConvertDigitalSamples g_hasAvx2 omp_max_threads out pout inp pin count
           = ConvertDigitalSamplesGeneric out pout inp pin count"
proof -
  have "count < 2 ^ 29 + 4" using assms by simp
  then have "ConvertDigitalSamplesAVX2 out pout inp pin count
               = ConvertDigitalSamplesGeneric out pout inp pin count"
    by (simp only: ConvertDigitalSamplesAVX2_eq ConvertDigitalSamplesGeneric_eq)
  with assms show ?thesis by (simp add: ConvertDigitalSamples_def)
qed

lemma ConvertDigitalSamples_single_block:
  assumes "125000 < count" "count < 2 ^ 29 + 4"
  shows "ConvertDigitalSamples g_hasAvx2 1 out pout inp pin count
           = ConvertDigitalSamplesGeneric out pout inp pin count"
proof -
  have "ConvertDigitalSamplesAVX2 out pout inp pin count
               = ConvertDigitalSamplesGeneric out pout inp pin count"
    using assms(2) by (simp only: ConvertDigitalSamplesAVX2_eq ConvertDigitalSamplesGeneric_eq)
  with assms(1) show ?thesis by (simp add: ConvertDigitalSamples_def Let_def)
qed

lemma unpack_each_bit:
  "i < count \<Longrightarrow> j < 8 \<Longrightarrow>
     ConvertDigitalSamplesGeneric out 0 inp 0 count (8 * i + j) = bit (inp i) j"
  by (simp add: ConvertDigitalSamplesGeneric_eq unpacked_def)

lemma AVX2_is_Generic:
  "count < 2 ^ 29 + 4 \<Longrightarrow>
     ConvertDigitalSamplesAVX2 out pout inp pin count
       = ConvertDigitalSamplesGeneric out pout inp pin count"
  by (simp only: ConvertDigitalSamplesAVX2_eq ConvertDigitalSamplesGeneric_eq)

text \<open>
  C7. The claim: the scalar path, the vector path and the block-partitioned dispatcher all
  produce \<open>out[8i+j] = (in[i] >> j) & 1\<close>. The scalar path does (\<open>unpack_each_bit\<close>),
  the vector path agrees with it for every count below \<open>2^29 + 4\<close>
  (\<open>AVX2_is_Generic\<close>), and so does the dispatcher for at most 125000 bytes or a single
  block. With more bytes and two or more blocks the dispatcher hands block \<open>i\<close> the
  output pointer \<open>pout + off\<close>, where \<open>off\<close> counts input bytes, although each input
  byte fills eight outputs. For 125004 bytes and two blocks, block 1 writes the outputs
  62500 to 562531, so output 562532 (bit 4 of byte 70316) is never written.
\<close>

theorem ConvertDigitalSamples_blocks_misplaced:
  "ConvertDigitalSamples g_hasAvx2 2 out 0 inp 0 125004 562532 = out 562532
   \<and> ConvertDigitalSamplesGeneric out 0 inp 0 125004 562532 = bit (inp 70316) 4
   \<and> ConvertDigitalSamples g_hasAvx2 2 (\<lambda>_. False) 0 (\<lambda>_. 0xFF) 0 125004 562532 = False
   \<and> ConvertDigitalSamplesGeneric (\<lambda>_. False) 0 (\<lambda>_. 0xFF) 0 125004 562532 = True"
proof -
  have two: "[0..<2] = [0, 1]" by (simp add: upt_rec)
  have a: "ConvertDigitalSamplesAVX2 m p i q (62500 :: nat) = ConvertDigitalSamplesGeneric m p i q 62500"
    "ConvertDigitalSamplesAVX2 m p i q (62504 :: nat) = ConvertDigitalSamplesGeneric m p i q 62504"
    for m p i q
    by (rule AVX2_is_Generic, simp)+
  have d: "ConvertDigitalSamples g_hasAvx2 2 out 0 inp 0 125004 562532 = out 562532" for out inp
    by (simp add: ConvertDigitalSamples_def Let_def two a ConvertDigitalSamplesGeneric_eq)
  have g: "ConvertDigitalSamplesGeneric out 0 inp 0 125004 562532 = bit (inp 70316) 4" for out inp
    by (simp add: ConvertDigitalSamplesGeneric_eq unpacked_def)
  have b: "bit (0xFF :: 8 word) 4" by simp
  show ?thesis unfolding d g using b by simp
qed

section \<open>Properties of the file decoder\<close>

subsection \<open>What a completed run has added\<close>

lemma convert_channel_Inr:
  assumes "convert_channel f dwb cc name g off count (fpos, streams) = Inr st"
  shows "st = (fpos + payload_size dwb count,
               streams @ [channel_stream f dwb cc name g off count fpos])"
  using assms
  by (auto simp: convert_channel_def channel_stream_def payload_size_def split: if_splits)

lemma for_channels_append:
  "for_channels body (xs @ ys) st =
     (case for_channels body xs st of Inl e \<Rightarrow> Inl e | Inr st' \<Rightarrow> for_channels body ys st')"
  by (induction xs arbitrary: st) (auto split: sum.splits)

lemma for_channels_extends:
  assumes step: "\<And>i st st'. body i st = Inr st' \<Longrightarrow> \<exists>more. snd st' = snd st @ more"
    and "for_channels body is st = Inr st'"
  shows "\<exists>more. snd st' = snd st @ more"
  using assms(2)
proof (induction "is" arbitrary: st)
  case Nil
  then show ?case by simp
next
  case (Cons i "is")
  from Cons.prems obtain st1 where 1: "body i st = Inr st1" and 2: "for_channels body is st1 = Inr st'"
    by (auto split: sum.splits)
  from step [OF 1] obtain m1 where "snd st1 = snd st @ m1" ..
  moreover from Cons.IH [OF 2] obtain m2 where "snd st' = snd st1 @ m2" ..
  ultimately have "snd st' = snd st @ (m1 @ m2)" by simp
  then show ?case ..
qed

lemma convert_channel_extends:
  assumes "convert_channel f dwb cc name g off count st = Inr st'"
  shows "\<exists>more. snd st' = snd st @ more"
proof -
  obtain fpos streams where st: "st = (fpos, streams)" by (cases st)
  from assms have "st' = (fpos + payload_size dwb count,
               streams @ [channel_stream f dwb cc name g off count fpos])"
    unfolding st by (rule convert_channel_Inr)
  then show ?thesis by (simp add: st)
qed

lemma math_channel_extends:
  assumes "math_channel f wh dwb cc i st = Inr st'"
  shows "\<exists>more. snd st' = snd st @ more"
proof (cases "math_en wh i = 1")
  case True
  with assms have "convert_channel f dwb cc (''F'' @ to_string (i + 1))
          (math_v_gain wh i / real_of_int (sint (math_codes_per_div wh)))
          (math_v_offset wh i) (math_wave_length wh i) st = Inr st'"
    by (simp add: math_channel_def)
  then show ?thesis by (rule convert_channel_extends)
next
  case False
  with assms have "st' = st" by (simp add: math_channel_def)
  then show ?thesis by simp
qed

lemma digital_channel_extends:
  assumes "digital_channel av t fresh f wh i st = Inr st'"
  shows "\<exists>more. snd st' = snd st @ more"
proof -
  obtain fpos streams where st: "st = (fpos, streams)" by (cases st)
  define X where "X = \<lparr>m_name = ''D'' @ to_string i, m_stype = STREAM_TYPE_DIGITAL,
                  m_data = UniformDigitalWaveform
                    (map (ConvertDigitalSamples av t fresh 0
                            (\<lambda>k. c_str f ! k) (unat fpos) (unat (d_wave_length wh) div 8))
                         [0..<unat (d_wave_length wh)])\<rparr>"
  have d: "digital_channel av t fresh f wh i (fpos, streams) =
     (if d_ch_en wh i = 1 then
        if unat fpos + unat (d_wave_length wh) div 8 \<le> length (c_str f) then
          Inr (fpos + d_wave_length wh div 8, streams @ [X])
        else Inl undefined_behaviour
      else Inr (fpos, streams))"
    unfolding digital_channel_def X_def by (simp only: Let_def prod.case)
  from assms [unfolded st d] have "snd st' = streams \<or> snd st' = streams @ [X]"
    by (auto split: if_splits)
  then show ?thesis unfolding st by auto
qed

lemma analog_channel_Inr:
  assumes "analog_channel f wh dwb cc n (fpos, streams) = Inr st"
  shows "st = (if ch_en wh n = 1
               then (fpos + payload_size dwb (wave_length wh),
                     streams @ [channel_stream f dwb cc (''C'' @ to_string (n + 1))
                       (ch_v_gain wh n * ch_probe wh n / real_of_int (sint (ch_codes_per_div wh n)))
                       (ch_v_offset wh n) (wave_length wh) fpos])
               else (fpos, streams))"
proof (cases "ch_en wh n = 1")
  case True
  with assms have "convert_channel f dwb cc (''C'' @ to_string (n + 1))
          (ch_v_gain wh n * ch_probe wh n / real_of_int (sint (ch_codes_per_div wh n)))
          (ch_v_offset wh n) (wave_length wh) (fpos, streams) = Inr st"
    by (simp add: analog_channel_def)
  from convert_channel_Inr [OF this] True show ?thesis by simp
next
  case False
  with assms show ?thesis by (simp add: analog_channel_def)
qed

lemma analog_fpos_Suc:
  "analog_fpos wh base dwb (Suc n) =
     (if ch_en wh n = 1 then analog_fpos wh base dwb n + payload_size dwb (wave_length wh)
      else analog_fpos wh base dwb n)"
  by (simp add: analog_fpos_def enabled_before_def algebra_simps)

lemma analog_loop_invariant:
  assumes "for_channels (analog_channel f wh dwb cc) [0..<n] (base, []) = Inr st"
  shows "st = (analog_fpos wh base dwb n,
               map (analog_stream f wh base dwb cc) (filter (\<lambda>k. ch_en wh k = 1) [0..<n]))"
  using assms
proof (induction n arbitrary: st)
  case 0
  then show ?case by (simp add: analog_fpos_def enabled_before_def)
next
  case (Suc n)
  have "[0..<Suc n] = [0..<n] @ [n]" by simp
  with Suc.prems obtain st1 where
    1: "for_channels (analog_channel f wh dwb cc) [0..<n] (base, []) = Inr st1"
    and 2: "analog_channel f wh dwb cc n st1 = Inr st"
    by (auto simp only: for_channels_append for_channels.simps split: sum.splits)
  note ih = Suc.IH [OF 1]
  from 2 have 3: "analog_channel f wh dwb cc n (analog_fpos wh base dwb n,
               map (analog_stream f wh base dwb cc) (filter (\<lambda>k. ch_en wh k = 1) [0..<n])) = Inr st"
    unfolding ih .
  show ?case
    unfolding analog_channel_Inr [OF 3] analog_fpos_Suc
    by (simp add: analog_stream_def)
qed

lemma nth_filter_upt:
  assumes "i < n" "P i"
  shows "length (filter P [0..<i]) < length (filter P [0..<n])"
    and "map g (filter P [0..<n]) ! length (filter P [0..<i]) = g i"
proof -
  have "[0..<n] = [0..<i] @ [i..<n]"
    using assms(1) upt_add_eq_append [of 0 i "n - i"] by simp
  also have "[i..<n] = i # [Suc i..<n]"
    using assms(1) by (rule upt_conv_Cons)
  finally have "[0..<n] = [0..<i] @ i # [Suc i..<n]" .
  then have f: "filter P [0..<n] = filter P [0..<i] @ i # filter P [Suc i..<n]"
    using assms(2) by simp
  show "length (filter P [0..<i]) < length (filter P [0..<n])"
    unfolding f by simp
  show "map g (filter P [0..<n]) ! length (filter P [0..<i]) = g i"
    unfolding f by (simp add: nth_append)
qed

lemma math_loop_extends:
  "for_channels (math_channel f wh dwb cc) is st = Inr st' \<Longrightarrow> \<exists>more. snd st' = snd st @ more"
  by (erule for_channels_extends [rotated]) (erule math_channel_extends)

lemma digital_loop_extends:
  "for_channels (digital_channel av t fresh f wh) is st = Inr st'
     \<Longrightarrow> \<exists>more. snd st' = snd st @ more"
  by (erule for_channels_extends [rotated]) (erule digital_channel_extends)

lemma process_payload_Inr:
  assumes "process_payload av t fresh f wh base = Inr flt"
  shows "unat (8 * (word_of_int (sint (data_width wh) + 1) :: 32 word) - 1) < 31"
    and "\<exists>more. m_streams flt =
           map (analog_stream f wh base (word_of_int (sint (data_width wh) + 1))
                  (2 ^ unat (8 * (word_of_int (sint (data_width wh) + 1) :: 32 word) - 1) - 1))
               (filter (\<lambda>k. ch_en wh k = 1) [0..<4]) @ more"
proof -
  define dwb where "dwb = (word_of_int (sint (data_width wh) + 1) :: 32 word)"
  define cc where "cc = (2 ^ unat (8 * dwb - 1) - 1 :: int)"
  define A where "A = for_channels (analog_channel f wh dwb cc) [0..<4] (base, [])"
  define M where "M = for_channels (math_channel f wh dwb cc) [0..<4]"
  define D where "D = for_channels (digital_channel av t fresh f wh) [0..<16]"
  have pp: "process_payload av t fresh f wh base =
     (if 31 \<le> unat (8 * dwb - 1) then Inl undefined_behaviour
      else case A of
             Inl e \<Rightarrow> Inl e
           | Inr st1 \<Rightarrow>
               (case M st1 of
                  Inl e \<Rightarrow> Inl e
                | Inr st2 \<Rightarrow>
                    if digital_en wh \<noteq> 0 then
                      (case D st2 of
                         Inl e \<Rightarrow> Inl e
                       | Inr st3 \<Rightarrow> Inr \<lparr>m_streams = snd st3, log_errors = []\<rparr>)
                    else Inr \<lparr>m_streams = snd st2, log_errors = []\<rparr>))"
    unfolding process_payload_def Let_def dwb_def cc_def A_def M_def D_def ..
  from assms show s: "unat (8 * (word_of_int (sint (data_width wh) + 1) :: 32 word) - 1) < 31"
    unfolding pp dwb_def by (simp split: if_splits)
  from assms s obtain st1 st2 where a: "A = Inr st1" and m: "M st1 = Inr st2"
    and d: "(digital_en wh = 0 \<and> m_streams flt = snd st2)
             \<or> (\<exists>st3. D st2 = Inr st3 \<and> m_streams flt = snd st3)"
    unfolding pp dwb_def [symmetric] by (auto split: if_splits sum.splits)
  from a have st1: "st1 = (analog_fpos wh base dwb 4,
               map (analog_stream f wh base dwb cc) (filter (\<lambda>k. ch_en wh k = 1) [0..<4]))"
    unfolding A_def by (rule analog_loop_invariant)
  from m obtain m1 where m1: "snd st2 = snd st1 @ m1"
    unfolding M_def using math_loop_extends by blast
  from d obtain m2 where m2: "m_streams flt = snd st2 @ m2"
  proof
    assume "digital_en wh = 0 \<and> m_streams flt = snd st2"
    then have "m_streams flt = snd st2 @ []" by simp
    then show ?thesis by (rule that)
  next
    assume "\<exists>st3. D st2 = Inr st3 \<and> m_streams flt = snd st3"
    then obtain st3 where 3: "D st2 = Inr st3" "m_streams flt = snd st3" by blast
    from 3(1) obtain m where "snd st3 = snd st2 @ m"
      unfolding D_def using digital_loop_extends by blast
    with 3(2) have "m_streams flt = snd st2 @ m" by simp
    then show ?thesis by (rule that)
  qed
  have "m_streams flt = map (analog_stream f wh base dwb cc) (filter (\<lambda>k. ch_en wh k = 1) [0..<4])
          @ (m1 @ m2)"
    by (simp add: m2 m1 st1)
  then show "\<exists>more. m_streams flt =
           map (analog_stream f wh base (word_of_int (sint (data_width wh) + 1))
                  (2 ^ unat (8 * (word_of_int (sint (data_width wh) + 1) :: 32 word) - 1) - 1))
               (filter (\<lambda>k. ch_en wh k = 1) [0..<4]) @ more"
    unfolding cc_def dwb_def by blast
qed

lemma OnFileNameChanged_payload:
  assumes "fname \<noteq> []" "file_version f = 2 \<or> file_version f = 4"
    and "OnFileNameChanged av t fresh sz fname f wh = Inr flt"
  shows "process_payload av t fresh f wh (if file_version f = 2 then 0x800 else 0x1000) = Inr flt"
  using assms unfolding OnFileNameChanged_def Let_def
  by (auto split: if_splits)

lemma analog_stream_nth:
  assumes "process_payload av t fresh f wh base = Inr flt" "i < 4" "ch_en wh i = 1"
  shows "enabled_before wh i < length (m_streams flt)"
    and "m_streams flt ! enabled_before wh i
           = analog_stream f wh base (word_of_int (sint (data_width wh) + 1))
               (2 ^ unat (8 * (word_of_int (sint (data_width wh) + 1) :: 32 word) - 1) - 1) i"
proof -
  let ?g = "analog_stream f wh base (word_of_int (sint (data_width wh) + 1))
               (2 ^ unat (8 * (word_of_int (sint (data_width wh) + 1) :: 32 word) - 1) - 1)"
  let ?P = "\<lambda>k. ch_en wh k = 1"
  from process_payload_Inr(2) [OF assms(1)] obtain more where
    s: "m_streams flt = map ?g (filter ?P [0..<4]) @ more" ..
  have l: "enabled_before wh i < length (filter ?P [0..<4])"
    unfolding enabled_before_def using assms(2,3) by (rule nth_filter_upt(1))
  have n: "map ?g (filter ?P [0..<4]) ! enabled_before wh i = ?g i"
    unfolding enabled_before_def using assms(2,3) by (rule nth_filter_upt(2))
  from l show "enabled_before wh i < length (m_streams flt)" by (simp add: s)
  from l n show "m_streams flt ! enabled_before wh i = ?g i" by (simp add: s nth_append)
qed

subsection \<open>A file that holds its payload is decoded\<close>

lemma zero_codes:
  "unat (8 * (word_of_int (sint (0 :: 8 word) + 1) :: 32 word) - 1) = 7"
  "unat (8 * (word_of_int (sint (1 :: 8 word) + 1) :: 32 word) - 1) = 15"
  "(word_of_int (sint (0 :: 8 word) + 1) :: 32 word) = 1"
  "(word_of_int (sint (1 :: 8 word) + 1) :: 32 word) = 2"
  by simp_all

lemma for_channels_fits:
  assumes step: "\<And>i st. unat (fst st) + cost i \<le> L \<Longrightarrow>
                   \<exists>st'. body i st = Inr st' \<and> unat (fst st') = unat (fst st) + cost i"
    and "unat (fst st) + sum_list (map cost is) \<le> L"
  shows "\<exists>st'. for_channels body is st = Inr st'
               \<and> unat (fst st') = unat (fst st) + sum_list (map cost is)"
  using assms(2)
proof (induction "is" arbitrary: st)
  case Nil
  then show ?case by simp
next
  case (Cons i "is")
  from Cons.prems have "unat (fst st) + cost i \<le> L" by simp
  from step [OF this] obtain st1 where
    1: "body i st = Inr st1" "unat (fst st1) = unat (fst st) + cost i" by blast
  from Cons.prems 1(2) have "unat (fst st1) + sum_list (map cost is) \<le> L" by simp
  from Cons.IH [OF this] obtain st' where
    2: "for_channels body is st1 = Inr st'"
       "unat (fst st') = unat (fst st1) + sum_list (map cost is)" by blast
  from 1 2 show ?case by simp
qed

lemma unat_advance:
  assumes "unat (fpos :: 32 word) + n \<le> L" "L < 2 ^ 32" "unat (d :: 32 word) = n"
  shows "unat (fpos + d) = unat fpos + n"
proof -
  have "unat fpos + unat d < 2 ^ LENGTH(32)" using assms by simp
  then have "unat (fpos + d) = unat fpos + unat d" by (simp only: unat_add_lem)
  then show ?thesis by (simp add: assms(3))
qed

lemma unat_twice:
  assumes "2 * unat (count :: 32 word) \<le> L" "L < 2 ^ 32"
  shows "unat (2 * count) = 2 * unat count"
proof -
  have "unat (2 :: 32 word) * unat count < 2 ^ LENGTH(32)" using assms by simp
  then have "unat (2 * count) = unat (2 :: 32 word) * unat count" by (simp only: unat_mult_lem)
  then show ?thesis by simp
qed

lemma convert_channel_fits:
  assumes "dwb = 1 \<or> dwb = 2"
    and "unat (fst st) + (if dwb = 2 then 2 else 1) * unat count \<le> length f"
    and "length f < 2 ^ 32"
  shows "\<exists>st'. convert_channel f dwb cc name g off count st = Inr st'
               \<and> unat (fst st') = unat (fst st) + (if dwb = 2 then 2 else 1) * unat count"
proof -
  obtain fpos streams where st: "st = (fpos, streams)" by (cases st)
  from assms(1) show ?thesis
  proof
    assume d: "dwb = 1"
    with assms(2) have b: "unat fpos + unat count \<le> length f" by (simp add: st)
    have "unat (fpos + count) = unat fpos + unat count"
      using b assms(3) by (rule unat_advance) simp
    with b show ?thesis by (simp add: convert_channel_def st d c_str_def)
  next
    assume d: "dwb = 2"
    with assms(2) have b: "unat fpos + 2 * unat count \<le> length f" by (simp add: st)
    then have "2 * unat count \<le> length f" by simp
    then have t: "unat (2 * count) = 2 * unat count" using assms(3) by (rule unat_twice)
    have "unat (fpos + 2 * count) = unat fpos + 2 * unat count"
      using b assms(3) t by (rule unat_advance)
    with b show ?thesis by (simp add: convert_channel_def st d c_str_def)
  qed
qed

lemma analog_channel_fits:
  assumes "dwb = 1 \<or> dwb = 2" and "length f < 2 ^ 32"
    and "unat (fst st)
           + (if ch_en wh i = 1 then (if dwb = 2 then 2 else 1) * unat (wave_length wh) else 0)
         \<le> length f"
  shows "\<exists>st'. analog_channel f wh dwb cc i st = Inr st'
               \<and> unat (fst st')
                   = unat (fst st)
                     + (if ch_en wh i = 1 then (if dwb = 2 then 2 else 1) * unat (wave_length wh)
                        else 0)"
proof (cases "ch_en wh i = 1")
  case True
  with assms(3) have "unat (fst st) + (if dwb = 2 then 2 else 1) * unat (wave_length wh) \<le> length f"
    by simp
  from convert_channel_fits [OF assms(1) this assms(2)] True show ?thesis
    by (simp add: analog_channel_def)
next
  case False
  then show ?thesis by (simp add: analog_channel_def)
qed

lemma math_channel_fits:
  assumes "dwb = 1 \<or> dwb = 2" and "length f < 2 ^ 32"
    and "unat (fst st)
           + (if math_en wh i = 1 then (if dwb = 2 then 2 else 1) * unat (math_wave_length wh i)
              else 0)
         \<le> length f"
  shows "\<exists>st'. math_channel f wh dwb cc i st = Inr st'
               \<and> unat (fst st')
                   = unat (fst st)
                     + (if math_en wh i = 1
                        then (if dwb = 2 then 2 else 1) * unat (math_wave_length wh i) else 0)"
proof (cases "math_en wh i = 1")
  case True
  with assms(3)
  have "unat (fst st) + (if dwb = 2 then 2 else 1) * unat (math_wave_length wh i) \<le> length f"
    by simp
  from convert_channel_fits [OF assms(1) this assms(2)] True show ?thesis
    by (simp add: math_channel_def)
next
  case False
  then show ?thesis by (simp add: math_channel_def)
qed

lemma digital_channel_fits:
  assumes "length f < 2 ^ 32"
    and "unat (fst st) + (if d_ch_en wh i = 1 then unat (d_wave_length wh) div 8 else 0)
         \<le> length f"
  shows "\<exists>st'. digital_channel av t fresh f wh i st = Inr st'
               \<and> unat (fst st')
                   = unat (fst st)
                     + (if d_ch_en wh i = 1 then unat (d_wave_length wh) div 8 else 0)"
proof -
  obtain fpos streams where st: "st = (fpos, streams)" by (cases st)
  show ?thesis
  proof (cases "d_ch_en wh i = 1")
    case True
    with assms(2) have b: "unat fpos + unat (d_wave_length wh) div 8 \<le> length f"
      by (simp add: st)
    have "unat (d_wave_length wh div 8) = unat (d_wave_length wh) div unat (8 :: 32 word)"
      by (rule unat_div)
    then have d: "unat (d_wave_length wh div 8) = unat (d_wave_length wh) div 8" by simp
    have "unat (fpos + d_wave_length wh div 8) = unat fpos + unat (d_wave_length wh) div 8"
      using b assms(1) d by (rule unat_advance)
    with b True show ?thesis
      unfolding digital_channel_def st by (simp add: c_str_def)
  next
    case False
    then show ?thesis unfolding digital_channel_def st by simp
  qed
qed

lemma process_payload_fits:
  assumes "data_width wh = 0 \<or> data_width wh = 1"
    and "length f < 2 ^ 32"
    and "unat base + declared_payload wh \<le> length f"
  shows "\<exists>flt. process_payload av t fresh f wh base = Inr flt"
proof -
  define dwb where "dwb = (word_of_int (sint (data_width wh) + 1) :: 32 word)"
  define cc where "cc = (2 ^ unat (8 * dwb - 1) - 1 :: int)"
  define A where "A = for_channels (analog_channel f wh dwb cc) [0..<4]"
  define M where "M = for_channels (math_channel f wh dwb cc) [0..<4]"
  define D where "D = for_channels (digital_channel av t fresh f wh) [0..<16]"
  define ca where "ca = (\<lambda>i. if ch_en wh i = 1
                              then (if dwb = 2 then 2 else 1) * unat (wave_length wh) else 0)"
  define cm where "cm = (\<lambda>i. if math_en wh i = 1
                              then (if dwb = 2 then 2 else 1) * unat (math_wave_length wh i) else 0)"
  define cd where "cd = (\<lambda>i. if d_ch_en wh i = 1 then unat (d_wave_length wh) div 8 else 0)"
  have pp: "process_payload av t fresh f wh base =
     (if 31 \<le> unat (8 * dwb - 1) then Inl undefined_behaviour
      else case A (base, []) of
             Inl e \<Rightarrow> Inl e
           | Inr st1 \<Rightarrow>
               (case M st1 of
                  Inl e \<Rightarrow> Inl e
                | Inr st2 \<Rightarrow>
                    if digital_en wh \<noteq> 0 then
                      (case D st2 of
                         Inl e \<Rightarrow> Inl e
                       | Inr st3 \<Rightarrow> Inr \<lparr>m_streams = snd st3, log_errors = []\<rparr>)
                    else Inr \<lparr>m_streams = snd st2, log_errors = []\<rparr>))"
    unfolding process_payload_def Let_def dwb_def cc_def A_def M_def D_def ..
  from assms(1) have dwb: "dwb = 1 \<or> dwb = 2" and sh: "\<not> 31 \<le> unat (8 * dwb - 1)"
    and w: "(dwb = 2) = (data_width wh = 1)"
    unfolding dwb_def by (auto simp: zero_codes)
  have dp: "declared_payload wh
      = sum_list (map ca [0..<4]) + sum_list (map cm [0..<4])
        + (if digital_en wh \<noteq> 0 then sum_list (map cd [0..<16]) else 0)"
    unfolding declared_payload_def Let_def ca_def cm_def cd_def w ..
  note b = assms(3) [unfolded dp]
  have sa: "\<exists>st'. analog_channel f wh dwb cc i st = Inr st' \<and> unat (fst st') = unat (fst st) + ca i"
    if "unat (fst st) + ca i \<le> length f" for i st
    using that unfolding ca_def by (rule analog_channel_fits [OF dwb assms(2)])
  have sm: "\<exists>st'. math_channel f wh dwb cc i st = Inr st' \<and> unat (fst st') = unat (fst st) + cm i"
    if "unat (fst st) + cm i \<le> length f" for i st
    using that unfolding cm_def by (rule math_channel_fits [OF dwb assms(2)])
  have sd: "\<exists>st'. digital_channel av t fresh f wh i st = Inr st'
                  \<and> unat (fst st') = unat (fst st) + cd i"
    if "unat (fst st) + cd i \<le> length f" for i st
    using that unfolding cd_def by (rule digital_channel_fits [OF assms(2)])
  have "\<exists>st'. for_channels (analog_channel f wh dwb cc) [0..<4] (base, []) = Inr st'
           \<and> unat (fst st') = unat (fst (base, [] :: stream list)) + sum_list (map ca [0..<4])"
  proof (rule for_channels_fits [where cost = ca and L = "length f"])
    show "unat (fst (base, [] :: stream list)) + sum_list (map ca [0..<4]) \<le> length f"
      using b by simp
  qed (rule sa)
  then obtain st1 where 1: "A (base, []) = Inr st1"
    and p1: "unat (fst st1) = unat base + sum_list (map ca [0..<4])"
    unfolding A_def by auto
  have "\<exists>st'. for_channels (math_channel f wh dwb cc) [0..<4] st1 = Inr st'
           \<and> unat (fst st') = unat (fst st1) + sum_list (map cm [0..<4])"
  proof (rule for_channels_fits [where cost = cm and L = "length f"])
    show "unat (fst st1) + sum_list (map cm [0..<4]) \<le> length f"
      using b p1 by simp
  qed (rule sm)
  then obtain st2 where 2: "M st1 = Inr st2"
    and p2: "unat (fst st2) = unat (fst st1) + sum_list (map cm [0..<4])"
    unfolding M_def by auto
  show ?thesis
  proof (cases "digital_en wh \<noteq> 0")
    case True
    have "\<exists>st'. for_channels (digital_channel av t fresh f wh) [0..<16] st2 = Inr st'
           \<and> unat (fst st') = unat (fst st2) + sum_list (map cd [0..<16])"
    proof (rule for_channels_fits [where cost = cd and L = "length f"])
      show "unat (fst st2) + sum_list (map cd [0..<16]) \<le> length f"
        using True b p1 p2 by simp
    qed (rule sd)
    then obtain st3 where 3: "D st2 = Inr st3" unfolding D_def by auto
    from sh 1 2 3 True show ?thesis unfolding pp by simp
  next
    case False
    with sh 1 2 show ?thesis unfolding pp by simp
  qed
qed

lemma OnFileNameChanged_fits:
  assumes "fname \<noteq> []"
    and "file_version f = 2 \<or> file_version f = 4"
    and "(if file_version f = 2 then 4 else 8) + sizeof_WaveHeader \<le> length f"
    and "(if file_version f = 2 then 0x800 else 0x1000) + declared_payload wh \<le> length f"
    and "length f < 2 ^ 32"
    and "data_width wh = 0 \<or> data_width wh = 1"
  shows "\<exists>flt. OnFileNameChanged av t fresh sizeof_WaveHeader fname f wh = Inr flt"
proof -
  define base where "base = (if file_version f = 2 then 0x800 else 0x1000 :: 32 word)"
  have "unat base = (if file_version f = 2 then 0x800 else 0x1000)"
    by (simp add: base_def)
  with assms(4) have "unat base + declared_payload wh \<le> length f" by simp
  from process_payload_fits [OF assms(6,5) this]
  obtain flt where p: "process_payload av t fresh f wh base = Inr flt" by blast
  from assms(2) have "OnFileNameChanged av t fresh sizeof_WaveHeader fname f wh
      = process_payload av t fresh f wh base"
  proof
    assume v: "file_version f = 2"
    with assms(1,3) show ?thesis
      by (simp add: OnFileNameChanged_def Let_def base_def)
  next
    assume v: "file_version f = 4"
    with assms(1,3) show ?thesis
      by (simp add: OnFileNameChanged_def Let_def base_def)
  qed
  with p show ?thesis by simp
qed

subsection \<open>The samples of an analog channel\<close>

lemma analog_stream_of_result:
  assumes "OnFileNameChanged g_hasAvx2 omp_max_threads fresh sizeof_WaveHeader fname f wh = Inr flt"
    and "fname \<noteq> []"
    and "file_version f = 2 \<or> file_version f = 4"
    and "data_width wh = 0 \<or> data_width wh = 1"
    and "i < 4"
    and "ch_en wh i = 1"
    and "ch_codes_per_div wh i \<noteq> 0"
  shows
    "let n = length (filter (\<lambda>k. ch_en wh k = 1) [0..<i]);
         dataWidthBytes = unat (data_width wh) + 1;
         zeroCode = (2 :: nat) ^ (8 * dataWidthBytes - 1) - 1;
         v_gain = ch_v_gain wh i * ch_probe wh i / real_of_int (sint (ch_codes_per_div wh i));
         base = (if file_version f = 2 then 0x800 else 0x1000 :: 32 word);
         start = unat (base + of_nat n * (of_nat dataWidthBytes * wave_length wh));
         rawCode = (\<lambda>j. if dataWidthBytes = 1 then unat (c_str f ! (start + j))
                        else unat (c_str f ! (start + 2 * j))
                               + 256 * unat (c_str f ! (start + 2 * j + 1)))
     in n < length (m_streams flt) \<and>
        (\<exists>samples.
           m_streams flt ! n
             = \<lparr>m_name = ''C'' @ to_string (i + 1), m_stype = STREAM_TYPE_ANALOG,
                m_data = UniformAnalogWaveform samples\<rparr>
           \<and> length samples = unat (wave_length wh)
           \<and> (\<forall>j < unat (wave_length wh).
                 samples ! j = (real (rawCode j) - real zeroCode) * v_gain - ch_v_offset wh i))"
proof -
  define base where "base = (if file_version f = 2 then 0x800 else 0x1000 :: 32 word)"
  define n where "n = length (filter (\<lambda>k. ch_en wh k = 1) [0..<i])"
  define g where "g = ch_v_gain wh i * ch_probe wh i / real_of_int (sint (ch_codes_per_div wh i))"
  have pp: "process_payload g_hasAvx2 omp_max_threads fresh f wh base = Inr flt"
    unfolding base_def using assms(2,3,1) by (rule OnFileNameChanged_payload)
  note nth = analog_stream_nth [OF pp assms(5,6), unfolded enabled_before_def, folded n_def]
  from assms(4) show ?thesis
  proof
    assume dw: "data_width wh = 0"
    define start where "start = unat (base + of_nat n * wave_length wh)"
    have s: "m_streams flt ! n
       = \<lparr>m_name = ''C'' @ to_string (i + 1), m_stype = STREAM_TYPE_ANALOG,
          m_data = UniformAnalogWaveform
            (ConvertUnsigned8BitSamples (c_str f) start g (g * 127 + ch_v_offset wh i)
               (unat (wave_length wh)))\<rparr>"
      unfolding nth(2) dw zero_codes analog_stream_def channel_stream_def analog_fpos_def
        payload_size_def enabled_before_def n_def [symmetric] start_def g_def
      by simp
    have q: "unat (data_width wh) + 1 = 1" by (simp add: dw)
    have st: "unat (base + of_nat n * (of_nat 1 * wave_length wh)) = start"
      by (simp add: start_def)
    have v: "ConvertUnsigned8BitSamples (c_str f) start g (g * 127 + ch_v_offset wh i)
               (unat (wave_length wh)) ! j
             = (real (unat (c_str f ! (start + j))) - real ((2 :: nat) ^ (8 * 1 - 1) - 1)) * g
                 - ch_v_offset wh i"
      if "j < unat (wave_length wh)" for j
      using that by (simp add: ConvertUnsigned8BitSamples_def left_diff_distrib)
    have l: "length (ConvertUnsigned8BitSamples (c_str f) start g (g * 127 + ch_v_offset wh i)
               (unat (wave_length wh))) = unat (wave_length wh)"
      by (simp add: ConvertUnsigned8BitSamples_def)
    show ?thesis
      unfolding Let_def base_def [symmetric] n_def [symmetric] g_def [symmetric] q st
      using nth(1) s v l by (simp only: refl if_True) blast
  next
    assume dw: "data_width wh = 1"
    define start where "start = unat (base + of_nat n * (2 * wave_length wh))"
    have s: "m_streams flt ! n
       = \<lparr>m_name = ''C'' @ to_string (i + 1), m_stype = STREAM_TYPE_ANALOG,
          m_data = UniformAnalogWaveform
            (ConvertUnsigned16BitSamples (c_str f) start g (g * 32767 + ch_v_offset wh i)
               (unat (wave_length wh)))\<rparr>"
      unfolding nth(2) dw zero_codes analog_stream_def channel_stream_def analog_fpos_def
        payload_size_def enabled_before_def n_def [symmetric] start_def g_def
      by simp
    have q: "unat (data_width wh) + 1 = 2" by (simp add: dw)
    have st: "unat (base + of_nat n * (of_nat 2 * wave_length wh)) = start"
      by (simp add: start_def)
    have v: "ConvertUnsigned16BitSamples (c_str f) start g (g * 32767 + ch_v_offset wh i)
               (unat (wave_length wh)) ! j
             = (real (unat (c_str f ! (start + 2 * j)) + 256 * unat (c_str f ! (start + 2 * j + 1)))
                  - real ((2 :: nat) ^ (8 * 2 - 1) - 1)) * g
                 - ch_v_offset wh i"
      if "j < unat (wave_length wh)" for j
      using that by (simp add: ConvertUnsigned16BitSamples_def left_diff_distrib)
    have l: "length (ConvertUnsigned16BitSamples (c_str f) start g (g * 32767 + ch_v_offset wh i)
               (unat (wave_length wh))) = unat (wave_length wh)"
      by (simp add: ConvertUnsigned16BitSamples_def)
    have ne: "(2 :: nat) \<noteq> 1" by simp
    show ?thesis
      unfolding Let_def base_def [symmetric] n_def [symmetric] g_def [symmetric] q st
      using nth(1) s v l by (simp only: ne if_False) blast
  qed
qed

lemma decoded_result:
  assumes "\<exists>y. x = Inr y \<and> P y" and "x = Inr a"
  shows "P a"
  using assms by auto

text \<open>
  C5. The claim: for a v2 or v4 capture file, the decoder produces for every enabled analog
  channel a waveform with \<open>wave_length\<close> samples, each
  \<open>(rawCode - zeroCode) \<times> v_gain - storedOffset\<close> with
  \<open>v_gain = rawGain \<times> probe / codesPerDivision\<close> and
  \<open>zeroCode = 2^(8\<cdot>dataWidthBytes - 1) - 1\<close>, the 8-bit and 16-bit raw codes read as
  unsigned. The theorem: a file of version 2 or 4 that holds the header and the payload its
  header declares is decoded to a result; there the stream of an enabled channel \<open>i\<close>,
  at the position \<open>n\<close> that counts the enabled channels before it, is \<open>C(i+1)\<close> and
  has \<open>wave_length\<close> samples; sample \<open>j\<close> is the formula of the claim at the raw
  code number \<open>j\<close> behind \<open>base + n \<times> dataWidthBytes \<times> wave_length\<close>, with
  \<open>base\<close> the payload offset of the version. Doubles and floats are exact reals, hence
  the division by \<open>codesPerDivision\<close> is one by a number other than zero.
\<close>

theorem analog_channels_decoded:
  assumes "fname \<noteq> []"
    and "file_version f = 2 \<or> file_version f = 4"
    and "(if file_version f = 2 then 4 else 8) + sizeof_WaveHeader \<le> length f"
    and "(if file_version f = 2 then 0x800 else 0x1000) + declared_payload wh \<le> length f"
    and "length f < 2 ^ 32"
    and "data_width wh = 0 \<or> data_width wh = 1"
    and "i < 4"
    and "ch_en wh i = 1"
    and "ch_codes_per_div wh i \<noteq> 0"
  shows
    "\<exists>flt. OnFileNameChanged g_hasAvx2 omp_max_threads fresh sizeof_WaveHeader fname f wh = Inr flt
       \<and> (let n = length (filter (\<lambda>k. ch_en wh k = 1) [0..<i]);
               dataWidthBytes = unat (data_width wh) + 1;
               zeroCode = (2 :: nat) ^ (8 * dataWidthBytes - 1) - 1;
               v_gain = ch_v_gain wh i * ch_probe wh i / real_of_int (sint (ch_codes_per_div wh i));
               base = (if file_version f = 2 then 0x800 else 0x1000 :: 32 word);
               start = unat (base + of_nat n * (of_nat dataWidthBytes * wave_length wh));
               rawCode = (\<lambda>j. if dataWidthBytes = 1 then unat (c_str f ! (start + j))
                              else unat (c_str f ! (start + 2 * j))
                                     + 256 * unat (c_str f ! (start + 2 * j + 1)))
           in n < length (m_streams flt) \<and>
              (\<exists>samples.
                 m_streams flt ! n
                   = \<lparr>m_name = ''C'' @ to_string (i + 1), m_stype = STREAM_TYPE_ANALOG,
                      m_data = UniformAnalogWaveform samples\<rparr>
                 \<and> length samples = unat (wave_length wh)
                 \<and> (\<forall>j < unat (wave_length wh).
                       samples ! j
                         = (real (rawCode j) - real zeroCode) * v_gain - ch_v_offset wh i)))"
proof -
  from OnFileNameChanged_fits [OF assms(1-6)] obtain flt where
    r: "OnFileNameChanged g_hasAvx2 omp_max_threads fresh sizeof_WaveHeader fname f wh = Inr flt"
    by blast
  note s = analog_stream_of_result [OF r assms(1,2,6-9)]
  show ?thesis by (rule exI [where x = flt]) (rule conjI [OF r s])
qed

subsection \<open>The example capture\<close>

lemma upt_4: "[0..<4] = [0, 1, 2, 3]"
  by (simp add: upt_rec)

lemma upt_3: "[0..<3] = [0, 1, 2]"
  by (simp add: upt_rec)

lemma upt_2: "[0..<2] = [0, 1]"
  by (simp add: upt_rec)

lemma example_file_version:
  "file_version (example_file 2 b) = 2" "file_version (example_file 4 b) = 4"
  by (simp_all add: file_version_def example_file_def)

lemma example_file_length: "4 \<le> b \<Longrightarrow> length (example_file v b) = b + 6"
  by (simp add: example_file_def)

lemma example_payload:
  assumes "4 \<le> b"
  shows "c_str (example_file v b) ! (b + k) = [127, 152, 2, 0, 255, 127, 0] ! k"
proof -
  have "c_str (example_file v b) = ([ucast v, 0, 0, 0] @ replicate (b - 4) 0) @ [127, 152, 2, 0, 255, 127, 0]"
    by (simp add: c_str_def example_file_def)
  moreover have "length ([ucast v, 0, 0, 0 :: 8 word] @ replicate (b - 4) 0) = b"
    using assms(1) by simp
  ultimately show ?thesis
    by (metis nth_append_length_plus)
qed

lemma to_string_digit: "to_string (Suc 0) = ''1''" "to_string 3 = ''3''"
  using char_of_char [of "CHR ''1''", where ?'a = nat] char_of_char [of "CHR ''3''", where ?'a = nat]
  by simp_all

lemma example_payload_run:
  assumes "b = 2048 \<or> b = 4096"
  shows "process_payload False 1 (\<lambda>_. False) (example_file v b) example_header (word_of_nat b)
     = Inr \<lparr>m_streams =
              [\<lparr>m_name = ''C1'', m_stype = STREAM_TYPE_ANALOG,
                m_data = UniformAnalogWaveform [- 1 / 2, 39 / 2, - 201 / 2]\<rparr>,
               \<lparr>m_name = ''C3'', m_stype = STREAM_TYPE_ANALOG,
                m_data = UniformAnalogWaveform [- 1021 / 10, 1019 / 10, - 1 / 2]\<rparr>],
            log_errors = []\<rparr>"
proof -
  have b4: "4 \<le> b" using assms by auto
  have ub: "unat (word_of_nat b :: 32 word) = b" "unat (word_of_nat b + 3 :: 32 word) = b + 3"
    using assms by auto
  have len: "length (c_str (example_file v b)) = b + 7"
    by (simp add: c_str_def example_file_length [OF b4])
  have p: "c_str (example_file v b) ! b = 127" "c_str (example_file v b) ! Suc b = 152"
    "c_str (example_file v b) ! Suc (Suc b) = 2" "c_str (example_file v b) ! (3 + b) = 0"
    "c_str (example_file v b) ! (b + 3) = 0"
    "c_str (example_file v b) ! (4 + b) = 255" "c_str (example_file v b) ! (5 + b) = 127"
    using example_payload [OF b4, of v 0] example_payload [OF b4, of v 1]
      example_payload [OF b4, of v 2] example_payload [OF b4, of v 3]
      example_payload [OF b4, of v 4] example_payload [OF b4, of v 5]
    by (simp_all add: add.commute [of _ b])
  show ?thesis
    unfolding process_payload_def Let_def
    by (simp add: example_header_def zero_codes upt_4 upt_3 analog_channel_def math_channel_def
        convert_channel_def ConvertUnsigned8BitSamples_def ub len p to_string_digit
        del: to_string.simps)
qed

lemma example_file_version3: "file_version (example_file 3 b) = 3"
  by (simp add: file_version_def example_file_def)

lemma example_declared_payload: "declared_payload example_header = 6"
  by (simp add: declared_payload_def example_header_def upt_4)

theorem analog_channels_decoded_witness:
  "OnFileNameChanged False 1 (\<lambda>_. False) 1020 ''capture.bin'' (example_file 2 2048) example_header
     = Inr \<lparr>m_streams =
              [\<lparr>m_name = ''C1'', m_stype = STREAM_TYPE_ANALOG,
                m_data = UniformAnalogWaveform [- 1 / 2, 39 / 2, - 201 / 2]\<rparr>,
               \<lparr>m_name = ''C3'', m_stype = STREAM_TYPE_ANALOG,
                m_data = UniformAnalogWaveform [- 1021 / 10, 1019 / 10, - 1 / 2]\<rparr>],
            log_errors = []\<rparr>
   \<and> file_version (example_file 2 2048) = 2
   \<and> data_width example_header = 0
   \<and> ch_en example_header 2 = 1
   \<and> ch_codes_per_div example_header 2 \<noteq> 0
   \<and> wave_length example_header = 3
   \<and> c_str (example_file 2 2048) ! 2052 = 255
   \<and> (1019 / 10 :: real) = (255 - 127) * (2 * 10 / 25) - 1 / 2"
proof -
  let ?flt = "\<lparr>m_streams =
              [\<lparr>m_name = ''C1'', m_stype = STREAM_TYPE_ANALOG,
                m_data = UniformAnalogWaveform [- 1 / 2, 39 / 2, - 201 / 2]\<rparr>,
               \<lparr>m_name = ''C3'', m_stype = STREAM_TYPE_ANALOG,
                m_data = UniformAnalogWaveform [- 1021 / 10, 1019 / 10, - 1 / 2]\<rparr>],
            log_errors = []\<rparr>"
  have run: "OnFileNameChanged False 1 (\<lambda>_. False) 1020 ''capture.bin'' (example_file 2 2048)
               example_header = Inr ?flt"
    using example_payload_run [of 2048 2]
    by (simp add: OnFileNameChanged_def example_file_version example_file_length)
  have h: "file_version (example_file 2 2048) = 2 \<or> file_version (example_file 2 2048) = 4"
    "data_width example_header = 0 \<or> data_width example_header = 1"
    "(2 :: nat) < 4" "ch_en example_header 2 = 1" "ch_codes_per_div example_header 2 \<noteq> 0"
    by (simp_all add: example_file_version example_header_def)
  have n: "length (filter (\<lambda>k. ch_en example_header k = 1) [0..<2]) = 1"
    by (simp add: upt_2 example_header_def)
  have c: "c_str (example_file 2 2048) ! 2052 = 255"
    using example_payload [of 2048 2 4] by simp
  have fn: "''capture.bin'' \<noteq> []" by simp
  have dwv: "data_width example_header = 0" "wave_length example_header = 3"
    "ch_v_gain example_header 2 = 2" "ch_probe example_header 2 = 10"
    "ch_codes_per_div example_header 2 = 25" "ch_v_offset example_header 2 = 1 / 2"
    by (simp_all add: example_header_def)
  have sz: "(if file_version (example_file 2 2048) = 2 then 4 else 8) + 1020
              \<le> length (example_file 2 2048)"
    "(if file_version (example_file 2 2048) = 2 then 0x800 else 0x1000)
       + declared_payload example_header \<le> length (example_file 2 2048)"
    "length (example_file 2 2048) < 2 ^ 32"
    by (simp_all add: example_file_version example_file_length example_declared_payload)
  note e = analog_channels_decoded [OF fn h(1) sz h(2-5)]
  note t = decoded_result [OF e run, unfolded Let_def n dwv example_file_version]
  from t [THEN conjunct2] obtain samples where
    s: "m_streams ?flt ! 1 = \<lparr>m_name = ''C'' @ to_string (2 + 1), m_stype = STREAM_TYPE_ANALOG,
                m_data = UniformAnalogWaveform samples\<rparr>"
    and v: "\<forall>j<unat (3 :: 32 word).
              samples ! j =
              (real
                (if unat (0 :: 8 word) + 1 = 1
                 then unat
                       (c_str (example_file 2 2048) !
                        (unat
                          ((if (2 :: 32 word) = 2 then 2048 else 4096 :: 32 word) +
                           word_of_nat 1 * (word_of_nat (unat (0 :: 8 word) + 1) * 3)) +
                         j))
                 else unat
                       (c_str (example_file 2 2048) !
                        (unat
                          ((if (2 :: 32 word) = 2 then 2048 else 4096 :: 32 word) +
                           word_of_nat 1 * (word_of_nat (unat (0 :: 8 word) + 1) * 3)) +
                         2 * j)) +
                      256 *
                      unat
                       (c_str (example_file 2 2048) !
                        (unat
                          ((if (2 :: 32 word) = 2 then 2048 else 4096 :: 32 word) +
                           word_of_nat 1 * (word_of_nat (unat (0 :: 8 word) + 1) * 3)) +
                         2 * j + 1))) -
               real (2 ^ (8 * (unat (0 :: 8 word) + 1) - 1) - 1)) *
              (2 * 10 / real_of_int (sint (25 :: 32 word))) - 1 / 2"
    by (elim exE conjE)
  from s have sm: "samples = [- 1021 / 10, 1019 / 10, - 1 / 2]" by simp
  have "(1 :: nat) < unat (3 :: 32 word)" by simp
  from v [rule_format, OF this] have f: "(1019 / 10 :: real) = (255 - 127) * (2 * 10 / 25) - 1 / 2"
    unfolding sm by (simp add: c)
  have nz: "ch_codes_per_div example_header 2 \<noteq> 0" by (rule h(5))
  from run example_file_version(1) dwv(1) h(4) nz dwv(2) c f show ?thesis
    by (intro conjI)
qed

subsection \<open>The version check and the payload offset\<close>

text \<open>
  C6. The claim: a file whose version field is neither 2 nor 4 makes the decoder log an
  error and return without an output stream; for version 2 the payload is read from offset
  0x800 on and for version 4 from 0x1000 on. The theorem: with any other version the call
  returns with no stream and the one logged error; with version 2 (4) and a complete header
  the call is the payload loops started at 0x800 (0x1000); and in a file that holds its
  payload the first enabled analog channel, whose samples are the first stream, is
  converted from the byte at that offset on.
\<close>

theorem version_check_and_payload_offset:
  "(fname \<noteq> [] \<and> 4 \<le> length f \<and> file_version f \<noteq> 2 \<and> file_version f \<noteq> 4 \<longrightarrow>
      OnFileNameChanged g_hasAvx2 omp_max_threads fresh sizeof_WaveHeader fname f wh
        = Inr \<lparr>m_streams = [],
               log_errors = [(''Unsupported version (%d) in file header'' @ [CHR 0x0A],
                              file_version f)]\<rparr>)
   \<and> (fname \<noteq> [] \<and> file_version f = 2 \<and> 4 + sizeof_WaveHeader \<le> length f \<longrightarrow>
      OnFileNameChanged g_hasAvx2 omp_max_threads fresh sizeof_WaveHeader fname f wh
        = process_payload g_hasAvx2 omp_max_threads fresh f wh 0x800)
   \<and> (fname \<noteq> [] \<and> file_version f = 4 \<and> 8 + sizeof_WaveHeader \<le> length f \<longrightarrow>
      OnFileNameChanged g_hasAvx2 omp_max_threads fresh sizeof_WaveHeader fname f wh
        = process_payload g_hasAvx2 omp_max_threads fresh f wh 0x1000)
   \<and> (fname \<noteq> [] \<and> (file_version f = 2 \<or> file_version f = 4)
        \<and> (if file_version f = 2 then 4 else 8) + sizeof_WaveHeader \<le> length f
        \<and> (if file_version f = 2 then 0x800 else 0x1000) + declared_payload wh \<le> length f
        \<and> length f < 2 ^ 32
        \<and> i < 4 \<and> ch_en wh i = 1 \<and> (\<forall>k < i. ch_en wh k \<noteq> 1)
        \<and> (data_width wh = 0 \<or> data_width wh = 1) \<longrightarrow>
      (\<exists>flt.
         OnFileNameChanged g_hasAvx2 omp_max_threads fresh sizeof_WaveHeader fname f wh = Inr flt
         \<and> m_data (m_streams flt ! 0)
             = UniformAnalogWaveform
                 (if data_width wh = 1
                  then ConvertUnsigned16BitSamples (c_str f)
                         (if file_version f = 2 then 0x800 else 0x1000)
                         (ch_v_gain wh i * ch_probe wh i
                            / real_of_int (sint (ch_codes_per_div wh i)))
                         (ch_v_gain wh i * ch_probe wh i
                            / real_of_int (sint (ch_codes_per_div wh i)) * 32767
                          + ch_v_offset wh i)
                         (unat (wave_length wh))
                  else ConvertUnsigned8BitSamples (c_str f)
                         (if file_version f = 2 then 0x800 else 0x1000)
                         (ch_v_gain wh i * ch_probe wh i
                            / real_of_int (sint (ch_codes_per_div wh i)))
                         (ch_v_gain wh i * ch_probe wh i
                            / real_of_int (sint (ch_codes_per_div wh i)) * 127
                          + ch_v_offset wh i)
                         (unat (wave_length wh)))))"
proof (intro conjI impI)
  assume "fname \<noteq> [] \<and> 4 \<le> length f \<and> file_version f \<noteq> 2 \<and> file_version f \<noteq> 4"
  then show "OnFileNameChanged g_hasAvx2 omp_max_threads fresh sizeof_WaveHeader fname f wh
        = Inr \<lparr>m_streams = [],
               log_errors = [(''Unsupported version (%d) in file header'' @ [CHR 0x0A],
                              file_version f)]\<rparr>"
    by (simp add: OnFileNameChanged_def Let_def)
next
  assume "fname \<noteq> [] \<and> file_version f = 2 \<and> 4 + sizeof_WaveHeader \<le> length f"
  then show "OnFileNameChanged g_hasAvx2 omp_max_threads fresh sizeof_WaveHeader fname f wh
        = process_payload g_hasAvx2 omp_max_threads fresh f wh 0x800"
    by (simp add: OnFileNameChanged_def Let_def)
next
  assume "fname \<noteq> [] \<and> file_version f = 4 \<and> 8 + sizeof_WaveHeader \<le> length f"
  then show "OnFileNameChanged g_hasAvx2 omp_max_threads fresh sizeof_WaveHeader fname f wh
        = process_payload g_hasAvx2 omp_max_threads fresh f wh 0x1000"
    by (simp add: OnFileNameChanged_def Let_def)
next
  assume a: "fname \<noteq> [] \<and> (file_version f = 2 \<or> file_version f = 4)
        \<and> (if file_version f = 2 then 4 else 8) + sizeof_WaveHeader \<le> length f
        \<and> (if file_version f = 2 then 0x800 else 0x1000) + declared_payload wh \<le> length f
        \<and> length f < 2 ^ 32
        \<and> i < 4 \<and> ch_en wh i = 1 \<and> (\<forall>k < i. ch_en wh k \<noteq> 1)
        \<and> (data_width wh = 0 \<or> data_width wh = 1)"
  define base where "base = (if file_version f = 2 then 0x800 else 0x1000 :: 32 word)"
  from a have a1: "fname \<noteq> []" and a2: "file_version f = 2 \<or> file_version f = 4"
    and a3: "(if file_version f = 2 then 4 else 8) + sizeof_WaveHeader \<le> length f"
    and a4: "(if file_version f = 2 then 0x800 else 0x1000) + declared_payload wh \<le> length f"
    and a5: "length f < 2 ^ 32"
    and a6: "data_width wh = 0 \<or> data_width wh = 1"
    by blast+
  from OnFileNameChanged_fits [OF a1 a2 a3 a4 a5 a6] obtain flt where
    r: "OnFileNameChanged g_hasAvx2 omp_max_threads fresh sizeof_WaveHeader fname f wh = Inr flt"
    by blast
  have pp: "process_payload g_hasAvx2 omp_max_threads fresh f wh base = Inr flt"
    unfolding base_def using a1 a2 r by (rule OnFileNameChanged_payload)
  from a have none: "filter (\<lambda>k. ch_en wh k = 1) [0..<i] = []"
    by (auto simp: filter_empty_conv)
  then have e0: "enabled_before wh i = 0" by (simp add: enabled_before_def)
  from a have i: "i < 4" "ch_en wh i = 1" by blast+
  note nth = analog_stream_nth(2) [OF pp i, unfolded e0]
  have b: "unat base = (if file_version f = 2 then 0x800 else 0x1000)"
    by (simp add: base_def)
  from a6 have "m_data (m_streams flt ! 0)
        = UniformAnalogWaveform
            (if data_width wh = 1
             then ConvertUnsigned16BitSamples (c_str f)
                    (if file_version f = 2 then 0x800 else 0x1000)
                    (ch_v_gain wh i * ch_probe wh i / real_of_int (sint (ch_codes_per_div wh i)))
                    (ch_v_gain wh i * ch_probe wh i / real_of_int (sint (ch_codes_per_div wh i))
                       * 32767 + ch_v_offset wh i)
                    (unat (wave_length wh))
             else ConvertUnsigned8BitSamples (c_str f)
                    (if file_version f = 2 then 0x800 else 0x1000)
                    (ch_v_gain wh i * ch_probe wh i / real_of_int (sint (ch_codes_per_div wh i)))
                    (ch_v_gain wh i * ch_probe wh i / real_of_int (sint (ch_codes_per_div wh i))
                       * 127 + ch_v_offset wh i)
                    (unat (wave_length wh)))"
  proof
    assume dw: "data_width wh = 0"
    show ?thesis
      unfolding nth dw zero_codes analog_stream_def channel_stream_def analog_fpos_def
        payload_size_def e0 b [symmetric]
      by simp
  next
    assume dw: "data_width wh = 1"
    show ?thesis
      unfolding nth dw zero_codes analog_stream_def channel_stream_def analog_fpos_def
        payload_size_def e0 b [symmetric]
      by simp
  qed
  with r show "\<exists>flt.
         OnFileNameChanged g_hasAvx2 omp_max_threads fresh sizeof_WaveHeader fname f wh = Inr flt
         \<and> m_data (m_streams flt ! 0)
             = UniformAnalogWaveform
                 (if data_width wh = 1
                  then ConvertUnsigned16BitSamples (c_str f)
                         (if file_version f = 2 then 0x800 else 0x1000)
                         (ch_v_gain wh i * ch_probe wh i
                            / real_of_int (sint (ch_codes_per_div wh i)))
                         (ch_v_gain wh i * ch_probe wh i
                            / real_of_int (sint (ch_codes_per_div wh i)) * 32767
                          + ch_v_offset wh i)
                         (unat (wave_length wh))
                  else ConvertUnsigned8BitSamples (c_str f)
                         (if file_version f = 2 then 0x800 else 0x1000)
                         (ch_v_gain wh i * ch_probe wh i
                            / real_of_int (sint (ch_codes_per_div wh i)))
                         (ch_v_gain wh i * ch_probe wh i
                            / real_of_int (sint (ch_codes_per_div wh i)) * 127
                          + ch_v_offset wh i)
                         (unat (wave_length wh)))"
    by (intro exI conjI)
qed

theorem version_check_and_payload_offset_witness:
  "OnFileNameChanged False 1 (\<lambda>_. False) 1020 ''capture.bin'' (example_file 3 2048) example_header
     = Inr \<lparr>m_streams = [],
            log_errors = [(''Unsupported version (%d) in file header'' @ [CHR 0x0A], 3)]\<rparr>
   \<and> OnFileNameChanged False 1 (\<lambda>_. False) 1020 ''capture.bin'' (example_file 2 2048) example_header
     = Inr \<lparr>m_streams =
              [\<lparr>m_name = ''C1'', m_stype = STREAM_TYPE_ANALOG,
                m_data = UniformAnalogWaveform [- 1 / 2, 39 / 2, - 201 / 2]\<rparr>,
               \<lparr>m_name = ''C3'', m_stype = STREAM_TYPE_ANALOG,
                m_data = UniformAnalogWaveform [- 1021 / 10, 1019 / 10, - 1 / 2]\<rparr>],
            log_errors = []\<rparr>
   \<and> OnFileNameChanged False 1 (\<lambda>_. False) 1020 ''capture.bin'' (example_file 4 4096) example_header
     = Inr \<lparr>m_streams =
              [\<lparr>m_name = ''C1'', m_stype = STREAM_TYPE_ANALOG,
                m_data = UniformAnalogWaveform [- 1 / 2, 39 / 2, - 201 / 2]\<rparr>,
               \<lparr>m_name = ''C3'', m_stype = STREAM_TYPE_ANALOG,
                m_data = UniformAnalogWaveform [- 1021 / 10, 1019 / 10, - 1 / 2]\<rparr>],
            log_errors = []\<rparr>
   \<and> ConvertUnsigned8BitSamples (c_str (example_file 4 4096)) 4096 (4 / 5) (1021 / 10) 3
       = [- 1 / 2, 39 / 2, - 201 / 2]"
proof -
  let ?flt = "\<lparr>m_streams =
              [\<lparr>m_name = ''C1'', m_stype = STREAM_TYPE_ANALOG,
                m_data = UniformAnalogWaveform [- 1 / 2, 39 / 2, - 201 / 2]\<rparr>,
               \<lparr>m_name = ''C3'', m_stype = STREAM_TYPE_ANALOG,
                m_data = UniformAnalogWaveform [- 1021 / 10, 1019 / 10, - 1 / 2]\<rparr>],
            log_errors = []\<rparr>"
  note t3 = version_check_and_payload_offset
    [of "''capture.bin''" "example_file 3 2048" False 1 "\<lambda>_. False" 1020 example_header]
  note t2 = version_check_and_payload_offset
    [of "''capture.bin''" "example_file 2 2048" False 1 "\<lambda>_. False" 1020 example_header]
  note t4 = version_check_and_payload_offset
    [of "''capture.bin''" "example_file 4 4096" False 1 "\<lambda>_. False" 1020 example_header 0]
  from t3 have 3: "OnFileNameChanged False 1 (\<lambda>_. False) 1020 ''capture.bin'' (example_file 3 2048)
       example_header
     = Inr \<lparr>m_streams = [],
            log_errors = [(''Unsupported version (%d) in file header'' @ [CHR 0x0A], 3)]\<rparr>"
    by (simp add: example_file_version3 example_file_length)
  from t2 have "OnFileNameChanged False 1 (\<lambda>_. False) 1020 ''capture.bin'' (example_file 2 2048)
       example_header
     = process_payload False 1 (\<lambda>_. False) (example_file 2 2048) example_header 0x800"
    by (simp add: example_file_version example_file_length)
  with example_payload_run [of 2048 2]
  have 2: "OnFileNameChanged False 1 (\<lambda>_. False) 1020 ''capture.bin'' (example_file 2 2048)
       example_header = Inr ?flt"
    by simp
  from t4 have "OnFileNameChanged False 1 (\<lambda>_. False) 1020 ''capture.bin'' (example_file 4 4096)
       example_header
     = process_payload False 1 (\<lambda>_. False) (example_file 4 4096) example_header 0x1000"
    by (simp add: example_file_version example_file_length)
  with example_payload_run [of 4096 4]
  have 4: "OnFileNameChanged False 1 (\<lambda>_. False) 1020 ''capture.bin'' (example_file 4 4096)
       example_header = Inr ?flt"
    by simp
  have sz: "(if file_version (example_file 4 4096) = 2 then 4 else 8) + 1020
              \<le> length (example_file 4 4096)"
    "(if file_version (example_file 4 4096) = 2 then 0x800 else 0x1000)
       + declared_payload example_header \<le> length (example_file 4 4096)"
    "length (example_file 4 4096) < 2 ^ 32"
    by (simp_all add: example_file_version example_file_length example_declared_payload)
  have hd: "ch_en example_header 0 = 1" "data_width example_header = 0"
    "wave_length example_header = 3" "ch_v_gain example_header 0 = 2"
    "ch_probe example_header 0 = 10" "ch_codes_per_div example_header 0 = 25"
    "ch_v_offset example_header 0 = 1 / 2"
    by (simp_all add: example_header_def)
  from t4 [THEN conjunct2, THEN conjunct2, THEN conjunct2] sz
  have "\<exists>flt. OnFileNameChanged False 1 (\<lambda>_. False) 1020 ''capture.bin''
                     (example_file 4 4096) example_header = Inr flt
      \<and> m_data (m_streams flt ! 0)
          = UniformAnalogWaveform
              (ConvertUnsigned8BitSamples (c_str (example_file 4 4096)) 4096 (4 / 5) (1021 / 10) 3)"
    by (simp add: example_file_version hd)
  then have "m_data (m_streams ?flt ! 0)
      = UniformAnalogWaveform
          (ConvertUnsigned8BitSamples (c_str (example_file 4 4096)) 4096 (4 / 5) (1021 / 10) 3)"
    unfolding 4 by simp
  then have 5: "ConvertUnsigned8BitSamples (c_str (example_file 4 4096)) 4096 (4 / 5) (1021 / 10) 3
       = [- 1 / 2, 39 / 2, - 201 / 2]"
    by simp
  from 3 2 4 5 show ?thesis by blast
qed

end
